theory Spec2Isabelle
  imports Complex_Main "HOL-Library.Word"
begin

section \<open>JavaScript values used by WorkerRenderService\<close>

text \<open>
  A JavaScript string is a sequence of UTF-16 code units; a \<open>Buffer\<close> is a sequence of
  bytes. String literals of the source are written \<open>js ''...''\<close>.
\<close>

type_synonym jsstring = "16 word list"
type_synonym Buffer = "8 word list"

definition js :: "string \<Rightarrow> jsstring" where
  "js s = map of_char s"

text \<open>Template-literal rendering of a non-negative integer (\<open>`${n}`\<close>).\<close>

fun show_nat :: "nat \<Rightarrow> jsstring" where
  "show_nat n = (if n < 10 then [of_nat (48 + n)]
                 else show_nat (n div 10) @ [of_nat (48 + n mod 10)])"

subsection \<open>Numbers\<close>

text \<open>
  A JavaScript number is an IEEE 754 binary64 value: a finite value, one of the two
  infinities, or \<open>NaN\<close>. A finite value is kept as the real number it denotes; the sign of
  zero, which no operation of the service observes, is not kept.
\<close>

datatype jsnum = Num real | PosInf | NegInf | NaN

text \<open>
  \<open>ilog2 x\<close> is the exponent \<open>e\<close> with \<open>2^e \<le> x < 2^(e+1)\<close>, for \<open>x > 0\<close>, found by
  halving or doubling.
\<close>

function ilog2_up :: "real \<Rightarrow> int" where
  "ilog2_up x = (if x < 2 then 0 else ilog2_up (x / 2) + 1)"
  by pat_completeness auto
termination
proof (relation "measure (\<lambda>x. nat \<lfloor>x\<rfloor>)")
  show "wf (measure (\<lambda>x. nat \<lfloor>x\<rfloor>))" by simp
next
  fix x :: real
  assume "\<not> x < 2"
  then have "\<lfloor>x / 2\<rfloor> < \<lfloor>x\<rfloor>" "0 < \<lfloor>x\<rfloor>" by linarith+
  then show "(x / 2, x) \<in> measure (\<lambda>x. nat \<lfloor>x\<rfloor>)" by simp
qed

function ilog2_down :: "real \<Rightarrow> int" where
  "ilog2_down x = (if x \<le> 0 \<or> 1 \<le> x then 0 else ilog2_down (2 * x) - 1)"
  by pat_completeness auto
termination
proof (relation "measure (\<lambda>x. nat \<lfloor>1 / x\<rfloor>)")
  show "wf (measure (\<lambda>x. nat \<lfloor>1 / x\<rfloor>))" by simp
next
  fix x :: real
  assume "\<not> (x \<le> 0 \<or> 1 \<le> x)"
  then have x: "0 < x" "x < 1" by simp_all
  define y where "y = 1 / x"
  from x have "1 < y" by (simp add: y_def)
  then have f: "1 \<le> \<lfloor>y\<rfloor>" by (simp add: le_floor_iff)
  then have "1 \<le> real_of_int \<lfloor>y\<rfloor>" by linarith
  moreover have "y < real_of_int \<lfloor>y\<rfloor> + 1" by linarith
  ultimately have "y / 2 < real_of_int \<lfloor>y\<rfloor>" by linarith
  then have "\<lfloor>y / 2\<rfloor> < \<lfloor>y\<rfloor>" by (simp add: floor_less_iff)
  with f have "\<lfloor>y / 2\<rfloor> < \<lfloor>y\<rfloor>" "0 < \<lfloor>y\<rfloor>" by simp_all
  moreover have "1 / (2 * x) = y / 2" by (simp add: y_def)
  ultimately have "\<lfloor>1 / (2 * x)\<rfloor> < \<lfloor>1 / x\<rfloor>" "0 < \<lfloor>1 / x\<rfloor>"
    by (simp_all only: y_def)
  then show "(2 * x, x) \<in> measure (\<lambda>x. nat \<lfloor>1 / x\<rfloor>)"
    by (simp del: divide_divide_eq_left)
qed

declare ilog2_up.simps [simp del] ilog2_down.simps [simp del]

definition ilog2 :: "real \<Rightarrow> int" where
  "ilog2 x = (if 1 \<le> x then ilog2_up x else ilog2_down x)"

text \<open>
  Rounding to binary64, to nearest with ties to even. The binade of \<open>x\<close> is its exponent,
  held at \<open>-1022\<close> for subnormal values; the representable values of that binade are the
  multiples of \<open>2^(binade - 52)\<close>. A result of magnitude \<open>2^1024\<close> or more is an infinity.
\<close>

definition round_half_even :: "real \<Rightarrow> int" where
  "round_half_even q =
     (let f = \<lfloor>q\<rfloor>; d = q - of_int f in
      if d < 1 / 2 then f
      else if 1 / 2 < d then f + 1
      else if even f then f else f + 1)"

definition binade :: "real \<Rightarrow> int" where
  "binade x = (if \<bar>x\<bar> < 2 powi (- 1022) then - 1022 else ilog2 \<bar>x\<bar>)"

definition overflow_threshold :: real where
  "overflow_threshold = 2 ^ 1024"

definition round64 :: "real \<Rightarrow> jsnum" where
  "round64 x =
     (let k = binade x - 52;
          y = of_int (round_half_even (x / 2 powi k)) * 2 powi k
      in if overflow_threshold \<le> \<bar>y\<bar> then (if 0 < x then PosInf else NegInf) else Num y)"

text \<open>
  The operators the service applies to numbers: \<open>*\<close>, \<open>/\<close>, \<open>+\<close>, \<open>>\<close>,
  \<open>isNaN\<close>, \<open>Math.ceil\<close> and the truth value of a number in a condition; and
  \<open><=\<close>, in which orderings of numbers are stated.
\<close>

fun js_sign :: "jsnum \<Rightarrow> real" where
  "js_sign (Num x) = sgn x"
| "js_sign PosInf = 1"
| "js_sign NegInf = - 1"
| "js_sign NaN = 0"

definition signed_inf :: "real \<Rightarrow> jsnum" where
  "signed_inf s = (if s = 0 then NaN else if 0 < s then PosInf else NegInf)"

fun js_mul :: "jsnum \<Rightarrow> jsnum \<Rightarrow> jsnum" where
  "js_mul NaN b = NaN"
| "js_mul a NaN = NaN"
| "js_mul (Num x) (Num y) = round64 (x * y)"
| "js_mul a b = signed_inf (js_sign a * js_sign b)"

fun js_div :: "jsnum \<Rightarrow> jsnum \<Rightarrow> jsnum" where
  "js_div NaN b = NaN"
| "js_div a NaN = NaN"
| "js_div (Num x) (Num y) = (if y = 0 then signed_inf (sgn x) else round64 (x / y))"
| "js_div (Num x) b = Num 0"
| "js_div a (Num y) = signed_inf (js_sign a * (if y < 0 then - 1 else 1))"
| "js_div a b = NaN"

fun js_add :: "jsnum \<Rightarrow> jsnum \<Rightarrow> jsnum" where
  "js_add NaN b = NaN"
| "js_add a NaN = NaN"
| "js_add (Num x) (Num y) = round64 (x + y)"
| "js_add PosInf NegInf = NaN"
| "js_add NegInf PosInf = NaN"
| "js_add (Num x) b = b"
| "js_add a b = a"

fun js_less :: "jsnum \<Rightarrow> jsnum \<Rightarrow> bool" where
  "js_less NaN b = False"
| "js_less a NaN = False"
| "js_less (Num x) (Num y) = (x < y)"
| "js_less a PosInf = (a \<noteq> PosInf)"
| "js_less NegInf b = (b \<noteq> NegInf)"
| "js_less a b = False"

definition js_gt :: "jsnum \<Rightarrow> jsnum \<Rightarrow> bool" where
  "js_gt a b = js_less b a"

definition js_le :: "jsnum \<Rightarrow> jsnum \<Rightarrow> bool" where
  "js_le a b \<longleftrightarrow> a \<noteq> NaN \<and> b \<noteq> NaN \<and> (js_less a b \<or> a = b)"

definition isNaN :: "jsnum \<Rightarrow> bool" where
  "isNaN a \<longleftrightarrow> a = NaN"

fun Math_ceil :: "jsnum \<Rightarrow> jsnum" where
  "Math_ceil (Num x) = Num (of_int \<lceil>x\<rceil>)"
| "Math_ceil a = a"

fun truthy_number :: "jsnum \<Rightarrow> bool" where
  "truthy_number (Num x) = (x \<noteq> 0)"
| "truthy_number NaN = False"
| "truthy_number a = True"

subsection \<open>Thrown values\<close>

text \<open>
  A thrown value: an \<open>Error\<close> object with its \<open>name\<close> and \<open>message\<close>, or any other
  value, kept as what \<open>String(err)\<close> renders.
\<close>

datatype thrown =
    JsError (error_name: jsstring) (error_message: jsstring)
  | NonError (rendering: jsstring)

definition new_Error :: "jsstring \<Rightarrow> thrown" where
  "new_Error m = JsError (js ''Error'') m"

text \<open>\<open>normalizeError(err).message\<close>; the stack is only logged.\<close>

fun normalizeError :: "thrown \<Rightarrow> jsstring" where
  "normalizeError (JsError n m) = m"
| "normalizeError (NonError s) = s"

definition assert :: "bool \<Rightarrow> jsstring \<Rightarrow> thrown + unit" where
  "assert condition m = (if condition then Inr () else Inl (new_Error m))"

text \<open>Sequencing of statements that may throw: the first \<open>Inl\<close> ends the block.\<close>

definition and_then :: "thrown + 'a \<Rightarrow> ('a \<Rightarrow> thrown + 'b) \<Rightarrow> thrown + 'b" where
  "and_then r f = (case r of Inl e \<Rightarrow> Inl e | Inr v \<Rightarrow> f v)"

text \<open>
  Reading a property of \<open>undefined\<close> or \<open>null\<close> throws a \<open>TypeError\<close>; the message is
  the one Node words it with.
\<close>

datatype nullish = JsUndefined | JsNull

definition TypeError_read :: "nullish \<Rightarrow> jsstring \<Rightarrow> thrown" where
  "TypeError_read n property =
     JsError (js ''TypeError'')
       (js ''Cannot read properties of ''
        @ (case n of JsUndefined \<Rightarrow> js ''undefined'' | JsNull \<Rightarrow> js ''null'')
        @ js '' (reading '' @ [0x27] @ property @ [0x27] @ js '')'')"

subsection \<open>Built-ins: \<open>String.prototype.split\<close>, \<open>trim\<close>, \<open>parseInt(_, 10)\<close>\<close>

fun split_js :: "16 word \<Rightarrow> jsstring \<Rightarrow> jsstring list" where
  "split_js sep [] = [[]]"
| "split_js sep (c # cs) =
     (if c = sep then [] # split_js sep cs
      else (case split_js sep cs of
              [] \<Rightarrow> [[c]]
            | p # ps \<Rightarrow> (c # p) # ps))"

text \<open>ECMAScript \<open>WhiteSpace\<close> and \<open>LineTerminator\<close> code units.\<close>

definition isWhiteSpace :: "16 word \<Rightarrow> bool" where
  "isWhiteSpace c \<longleftrightarrow>
     (0x09 \<le> c \<and> c \<le> 0x0D) \<or> c = 0x20 \<or> c = 0xA0 \<or> c = 0x1680
     \<or> (0x2000 \<le> c \<and> c \<le> 0x200A) \<or> c = 0x2028 \<or> c = 0x2029
     \<or> c = 0x202F \<or> c = 0x205F \<or> c = 0x3000 \<or> c = 0xFEFF"

definition trim :: "jsstring \<Rightarrow> jsstring" where
  "trim s = rev (dropWhile isWhiteSpace (rev (dropWhile isWhiteSpace s)))"

definition isDigit :: "16 word \<Rightarrow> bool" where
  "isDigit c \<longleftrightarrow> 0x30 \<le> c \<and> c \<le> 0x39"

definition digitsValue :: "jsstring \<Rightarrow> int" where
  "digitsValue ds = foldl (\<lambda>acc c. acc * 10 + (uint c - 48)) 0 ds"

text \<open>
  \<open>parseInt(s, 10)\<close>: leading white space is skipped, one sign is read, then the longest
  run of decimal digits; whatever follows is ignored. No digit gives \<open>NaN\<close>; otherwise the
  result is the number nearest to the integer read (beyond 20 significant digits
  ECMAScript lets an implementation approximate; the nearest number is taken here too).
\<close>

definition parseInt10 :: "jsstring \<Rightarrow> jsnum" where
  "parseInt10 s =
     (let t = dropWhile isWhiteSpace s;
          negative = (t \<noteq> [] \<and> hd t = 0x2D);
          u = (if t \<noteq> [] \<and> (hd t = 0x2B \<or> hd t = 0x2D) then tl t else t);
          z = takeWhile isDigit u
      in if z = [] then NaN
         else round64 (of_int ((if negative then - 1 else 1) * digitsValue z)))"

section \<open>Helpers of the service\<close>

definition parseResolution :: "jsstring \<Rightarrow> thrown + (jsnum \<times> jsnum)" where
  "parseResolution resolution =
     (let parts = split_js 0x78 resolution in
      if length parts \<noteq> 2 then
        Inl (new_Error (js ''Invalid resolution format: '' @ resolution
                        @ js ''. Expected '' @ [0x22] @ js ''WxH'' @ [0x22]))
      else
        (let width = parseInt10 (parts ! 0); height = parseInt10 (parts ! 1) in
         if isNaN width \<or> isNaN height then
           Inl (new_Error (js ''Invalid resolution values: '' @ resolution))
         else Inr (width, height)))"

text \<open>
  \<open>sanitizeText\<close>: the first \<open>replace\<close> deletes the code units of
  \<open>[\u0000-\u001F\u007F-\u009F]\<close>; the second, with the \<open>u\<close> flag, reads the string by code
  points and deletes those above \<open>U+FFFF\<close>, which are exactly the well-formed surrogate
  pairs. A surrogate without its partner is a code point below \<open>U+10000\<close> and stays.
\<close>

definition isControl :: "16 word \<Rightarrow> bool" where
  "isControl c \<longleftrightarrow> c \<le> 0x1F \<or> (0x7F \<le> c \<and> c \<le> 0x9F)"

definition isHighSurrogate :: "16 word \<Rightarrow> bool" where
  "isHighSurrogate c \<longleftrightarrow> 0xD800 \<le> c \<and> c \<le> 0xDBFF"

definition isLowSurrogate :: "16 word \<Rightarrow> bool" where
  "isLowSurrogate c \<longleftrightarrow> 0xDC00 \<le> c \<and> c \<le> 0xDFFF"

fun removeAstral :: "jsstring \<Rightarrow> jsstring" where
  "removeAstral (h # l # rest) =
     (if isHighSurrogate h \<and> isLowSurrogate l then removeAstral rest
      else h # removeAstral (l # rest))"
| "removeAstral cs = cs"

definition sanitizeText :: "jsstring \<Rightarrow> jsstring" where
  "sanitizeText text = removeAstral (filter (\<lambda>c. \<not> isControl c) text)"

section \<open>Data model\<close>

text \<open>
  The request types of \<open>types/video-worker\<close>, as \<open>validateRequest\<close> returns them;
  \<open>narrative\<close> is never read. \<open>videoUrl\<close> is \<open>string | null\<close>.
\<close>

record WorkerScene =
  scene_text :: jsstring
  duration :: jsnum
  searchTerms :: "jsstring list"

record WorkerAsset =
  asset_searchTerms :: jsstring
  videoUrl :: "jsstring option"

record WorkerConfig =
  resolution :: jsstring
  tone :: jsstring
  platform :: jsstring
  ttsUrl :: jsstring
  assets :: "WorkerAsset list"

record ShortVideoRenderRequest =
  scenes :: "WorkerScene list"
  config :: WorkerConfig

text \<open>
  The request as it arrives. The type annotation of \<open>renderVideo\<close> is erased at run time,
  so every field that \<open>validateRequest\<close> tests, and the resolution that it hands to
  \<open>parseResolution\<close>, may be missing or of another type: a value is \<open>undefined\<close> or
  \<open>null\<close>, or a value of some other type (of which only the truth value matters), or a
  value of the declared type. The fields that \<open>validateRequest\<close> never looks at
  (\<open>searchTerms\<close>, \<open>tone\<close>, \<open>platform\<close>, \<open>assets\<close>) are taken at their declared type.
\<close>

datatype 'a dyn = Nullish nullish | Other bool | Is 'a

record ReceivedScene =
  r_text :: "jsstring dyn"
  r_duration :: "jsnum dyn"
  r_searchTerms :: "jsstring list"

record ReceivedConfig =
  r_resolution :: "jsstring dyn"
  r_tone :: jsstring
  r_platform :: jsstring
  r_ttsUrl :: "jsstring dyn"
  r_assets :: "WorkerAsset list"

record ReceivedRequest =
  r_scenes :: "ReceivedScene dyn list dyn"
  r_config :: "ReceivedConfig dyn"

datatype response = Binary Buffer | UrlResponse jsstring

record ResolvedAsset =
  resolved_searchTerms :: jsstring
  resolved_videoUrl :: "jsstring option"
  localPath :: "jsstring option"

record InternalSceneRenderPlan =
  scene_id :: jsstring
  startFrame :: jsnum
  durationInFrames :: jsnum
  plan_duration :: jsnum
  plan_text :: jsstring
  assetPath :: "jsstring option"
  plan_searchTerms :: "jsstring list"

record InternalRenderPlan =
  width :: jsnum
  height :: jsnum
  fps :: jsnum
  plan_scenes :: "InternalSceneRenderPlan list"
  audioBuffer :: Buffer
  plan_tone :: jsstring
  plan_platform :: jsstring

text \<open>
  The configuration, with the fields the service reads from \<open>this.config\<close>; the class
  \<open>Config\<close> itself is declared outside the sources at hand. A timeout of \<open>0\<close> stands
  for any falsy value, which \<open>||\<close> replaces by \<open>15000\<close>.
\<close>

record Config =
  responseMode :: jsstring
  audioDownloadTimeoutMs :: nat
  assetDownloadTimeoutMs :: nat
  tempDirPath :: jsstring

section \<open>The world outside the service\<close>

text \<open>
  What \<open>fetch\<close> answers: a response with its \<open>ok\<close> flag, its status and the outcome of
  reading the body, or a rejection. The abort fired by the timer is the rejection with an
  \<open>Error\<close> named \<open>AbortError\<close>.
\<close>

datatype fetch_outcome =
    Response bool nat "thrown + Buffer"
  | FetchRejected thrown

text \<open>
  Modelled from the spec: the states a render job reports, \<open>queued\<close>, \<open>rendering\<close>,
  \<open>ready\<close> and \<open>failed\<close>; the status type of \<open>ShortCreator\<close> is declared outside the
  sources at hand. The polling loop only tells \<open>ready\<close> and \<open>failed\<close> from the rest.
\<close>

datatype job_status = Queued | Rendering | Ready | Failed

text \<open>What \<open>renderWithRemotion\<close> hands to \<open>ShortCreator.addToQueue\<close> for each scene.\<close>

record SceneInput =
  input_text :: jsstring
  input_searchTerms :: "jsstring list"
  input_audioBuffer :: "Buffer option"
  input_audioDuration :: "jsnum option"

text \<open>
  The environment fixes every answer from outside: the outcome of the \<open>k\<close>-th suspension
  when it is a \<open>fetch\<close> or a \<open>writeFile\<close>, the time each suspension takes beyond its own
  timer, the strings \<open>Math.random().toString(36).substring(2, 8)\<close> yields, \<open>path.join\<close>, and
  the \<open>ShortCreator\<close> collaborator (the status it reports at the \<open>k\<close>-th query).
  The world records what the service has done so far.
\<close>

record env =
  fetch_result :: "nat \<Rightarrow> jsstring \<Rightarrow> fetch_outcome"
  writeFile_result :: "nat \<Rightarrow> jsstring \<Rightarrow> thrown option"
  elapsed :: "nat \<Rightarrow> nat"
  random36 :: "nat \<Rightarrow> jsstring"
  path_join :: "jsstring \<Rightarrow> jsstring \<Rightarrow> jsstring"
  addToQueue :: "SceneInput list \<Rightarrow> thrown + jsstring"
  status :: "jsstring \<Rightarrow> nat \<Rightarrow> job_status"
  getVideo :: "jsstring \<Rightarrow> thrown + Buffer"

record world =
  now :: nat
  awaits :: nat
  randoms :: nat
  polls :: nat
  fetched :: "jsstring list"
  written :: "(jsstring \<times> Buffer) list"

text \<open>One suspension (\<open>await\<close>) whose timer, if any, is \<open>ms\<close> milliseconds.\<close>

definition suspend :: "env \<Rightarrow> nat \<Rightarrow> world \<Rightarrow> world" where
  "suspend e ms w = w\<lparr>now := now w + ms + elapsed e (awaits w), awaits := awaits w + 1\<rparr>"

definition random_suffix :: "env \<Rightarrow> world \<Rightarrow> jsstring \<times> world" where
  "random_suffix e w = (random36 e (randoms w), w\<lparr>randoms := randoms w + 1\<rparr>)"

definition writeFile :: "env \<Rightarrow> jsstring \<Rightarrow> Buffer \<Rightarrow> world \<Rightarrow> (thrown + unit) \<times> world" where
  "writeFile e file_path content w =
     (case writeFile_result e (awaits w) file_path of
        Some err \<Rightarrow> (Inl err, suspend e 0 w)
      | None \<Rightarrow> (Inr (), (suspend e 0 w)\<lparr>written := written w @ [(file_path, content)]\<rparr>))"

section \<open>Request validation\<close>

text \<open>
  The tests of \<open>validateRequest\<close> on values of unknown type: \<open>typeof v === 'string'\<close>,
  \<open>typeof v === 'number'\<close> and \<open>v && Array.isArray(v)\<close> hold exactly for a value of the
  declared type and yield it; anything else fails the assertion with the message given.
\<close>

fun typeof_checked :: "'a dyn \<Rightarrow> jsstring \<Rightarrow> thrown + 'a" where
  "typeof_checked (Is v) m = Inr v"
| "typeof_checked other m = Inl (new_Error m)"

text \<open>
  One round of the loop over \<open>request.scenes\<close>. Reading \<open>scene.text\<close> of an element that
  is \<open>undefined\<close> or \<open>null\<close> throws a \<open>TypeError\<close>; on an element that is no object
  the read gives \<open>undefined\<close>, which is no string. The duration must be a number and
  \<open>> 0\<close>. The scenes that pass are collected at their declared type.
\<close>

definition validateScene :: "nat \<Rightarrow> ReceivedScene dyn \<Rightarrow> thrown + WorkerScene" where
  "validateScene i scene =
     (case scene of
        Nullish n \<Rightarrow> Inl (TypeError_read n (js ''text''))
      | Other b \<Rightarrow> Inl (new_Error (js ''Scene '' @ show_nat i @ js '': text must be a string''))
      | Is s \<Rightarrow>
          and_then (typeof_checked (r_text s)
                      (js ''Scene '' @ show_nat i @ js '': text must be a string'')) (\<lambda>t.
          and_then (assert (length (trim t) > 0)
                      (js ''Scene '' @ show_nat i @ js '': text cannot be empty'')) (\<lambda>_.
          and_then (typeof_checked (r_duration s)
                      (js ''Scene '' @ show_nat i @ js '': duration must be a positive number'')) (\<lambda>d.
          and_then (assert (js_gt d (Num 0))
                      (js ''Scene '' @ show_nat i @ js '': duration must be a positive number'')) (\<lambda>_.
          Inr \<lparr>scene_text = t, duration = d, searchTerms = r_searchTerms s\<rparr>)))))"

fun validateScenes :: "nat \<Rightarrow> ReceivedScene dyn list \<Rightarrow> thrown + WorkerScene list" where
  "validateScenes i [] = Inr []"
| "validateScenes i (scene # rest) =
     and_then (validateScene i scene) (\<lambda>s.
     and_then (validateScenes (i + 1) rest) (\<lambda>ss.
     Inr (s # ss)))"

text \<open>
  \<open>request.scenes && Array.isArray(request.scenes)\<close> holds exactly for an array. A
  \<open>config\<close> that is falsy fails \<open>assert(request.config, ...)\<close>; one that is truthy and no
  object has no \<open>ttsUrl\<close>. A resolution that is no string has no \<open>split\<close> method, and
  \<open>parseResolution\<close> throws a \<open>TypeError\<close>.
\<close>

definition validateConfig :: "ReceivedConfig dyn \<Rightarrow> thrown + WorkerConfig" where
  "validateConfig received =
     (case received of
        Nullish n \<Rightarrow> Inl (new_Error (js ''config is required''))
      | Other b \<Rightarrow>
          if b then Inl (new_Error (js ''config.ttsUrl must be a string''))
          else Inl (new_Error (js ''config is required''))
      | Is c \<Rightarrow>
          and_then (typeof_checked (r_ttsUrl c) (js ''config.ttsUrl must be a string'')) (\<lambda>url.
          and_then (assert (length url > 0) (js ''config.ttsUrl cannot be empty'')) (\<lambda>_.
          and_then (case r_resolution c of
                      Nullish n \<Rightarrow> Inl (TypeError_read n (js ''split''))
                    | Other b \<Rightarrow> Inl (JsError (js ''TypeError'')
                                         (js ''resolution.split is not a function''))
                    | Is res \<Rightarrow> and_then (parseResolution res) (\<lambda>(w, h). Inr (res, w, h)))
            (\<lambda>(res, w, h).
          and_then (assert (js_gt w (Num 0) \<and> js_gt h (Num 0))
                      (js ''Invalid resolution values'')) (\<lambda>_.
          Inr \<lparr>resolution = res, tone = r_tone c, platform = r_platform c,
               ttsUrl = url, assets = r_assets c\<rparr>)))))"

text \<open>
  \<open>validateRequest\<close> returns the request it was given; the result is that request at its
  declared type, which the tests passed have established.
\<close>

definition validateRequest :: "ReceivedRequest \<Rightarrow> thrown + ShortVideoRenderRequest" where
  "validateRequest request =
     and_then (typeof_checked (r_scenes request) (js ''scenes must be an array'')) (\<lambda>scene_list.
     and_then (assert (length scene_list > 0) (js ''scenes array cannot be empty'')) (\<lambda>_.
     and_then (validateScenes 0 scene_list) (\<lambda>ss.
     and_then (validateConfig (r_config request)) (\<lambda>c.
     Inr \<lparr>scenes = ss, config = c\<rparr>))))"

section \<open>Downloads\<close>

text \<open>
  \<open>downloadWithTimeout\<close>: everything thrown inside the \<open>try\<close>, the \<open>HTTP\<close> error of
  the function itself included, passes through the \<open>catch\<close>, which rewrites an
  \<open>AbortError\<close> and rethrows the rest.
\<close>

fun download_catch :: "nat \<Rightarrow> jsstring \<Rightarrow> thrown \<Rightarrow> thrown" where
  "download_catch timeoutMs timeoutError (JsError n m) =
     (if n = js ''AbortError''
      then new_Error (timeoutError @ js '': Timed out after '' @ show_nat timeoutMs @ js ''ms'')
      else JsError n m)"
| "download_catch timeoutMs timeoutError (NonError s) = NonError s"

definition downloadWithTimeout ::
  "env \<Rightarrow> jsstring \<Rightarrow> nat \<Rightarrow> jsstring \<Rightarrow> world \<Rightarrow> (thrown + Buffer) \<times> world" where
  "downloadWithTimeout e url timeoutMs timeoutError w =
     (let w1 = (suspend e 0 w)\<lparr>fetched := fetched w @ [url]\<rparr> in
      case fetch_result e (awaits w) url of
        FetchRejected err \<Rightarrow> (Inl (download_catch timeoutMs timeoutError err), w1)
      | Response ok status_code body \<Rightarrow>
          if \<not> ok then
            (Inl (download_catch timeoutMs timeoutError
                    (new_Error (timeoutError @ js '': HTTP '' @ show_nat status_code))), w1)
          else
            (case body of
               Inl err \<Rightarrow> (Inl (download_catch timeoutMs timeoutError err), suspend e 0 w1)
             | Inr arrayBuffer \<Rightarrow> (Inr arrayBuffer, suspend e 0 w1)))"

definition downloadTtsAudio ::
  "Config \<Rightarrow> env \<Rightarrow> jsstring \<Rightarrow> world \<Rightarrow> (thrown + Buffer) \<times> world" where
  "downloadTtsAudio cfg e tts_url w =
     (let timeoutMs = (if audioDownloadTimeoutMs cfg = 0 then 15000
                       else audioDownloadTimeoutMs cfg) in
      case downloadWithTimeout e tts_url timeoutMs (js ''TTS download failed'') w of
        (Inr buffer, w1) \<Rightarrow> (Inr buffer, w1)
      | (Inl err, w1) \<Rightarrow>
          (Inl (new_Error (js ''Failed to download TTS audio: '' @ normalizeError err)), w1))"

section \<open>Asset resolution\<close>

text \<open>
  The \<open>try\<close> block of one loop iteration of \<open>resolveAssets\<close>: download, then write the
  bytes to a temporary file named after the clock and a random suffix.
\<close>

definition resolveAssets_try ::
  "Config \<Rightarrow> env \<Rightarrow> WorkerAsset \<Rightarrow> jsstring \<Rightarrow> world \<Rightarrow> (thrown + ResolvedAsset) \<times> world" where
  "resolveAssets_try cfg e asset url w =
     (let timeoutMs = (if assetDownloadTimeoutMs cfg = 0 then 15000
                       else assetDownloadTimeoutMs cfg) in
      case downloadWithTimeout e url timeoutMs (js ''Asset download failed'') w of
        (Inl err, w1) \<Rightarrow> (Inl err, w1)
      | (Inr buffer, w1) \<Rightarrow>
          (let (suffix, w2) = random_suffix e w1;
               tempFileName = js ''asset-'' @ show_nat (now w1) @ js ''-'' @ suffix @ js ''.mp4'';
               tempPath = path_join e (tempDirPath cfg) tempFileName in
           case writeFile e tempPath buffer w2 of
             (Inl err, w3) \<Rightarrow> (Inl err, w3)
           | (Inr _, w3) \<Rightarrow>
               (Inr \<lparr>resolved_searchTerms = asset_searchTerms asset,
                     resolved_videoUrl = Some url,
                     localPath = Some tempPath\<rparr>, w3)))"

definition fallback :: "WorkerAsset \<Rightarrow> ResolvedAsset" where
  "fallback asset = \<lparr>resolved_searchTerms = asset_searchTerms asset,
                     resolved_videoUrl = None,
                     localPath = None\<rparr>"

text \<open>
  One iteration: \<open>if (asset.videoUrl)\<close> is false for \<open>null\<close> and for the empty string;
  the \<open>catch\<close> turns whatever the \<open>try\<close> block threw into the fallback entry.
\<close>

definition resolveAssets_step ::
  "Config \<Rightarrow> env \<Rightarrow> WorkerAsset \<Rightarrow> world \<Rightarrow> (thrown + ResolvedAsset) \<times> world" where
  "resolveAssets_step cfg e asset w =
     (case videoUrl asset of
        None \<Rightarrow> (Inr (fallback asset), w)
      | Some url \<Rightarrow>
          if url = [] then (Inr (fallback asset), w)
          else (case resolveAssets_try cfg e asset url w of
                  (Inr entry, w1) \<Rightarrow> (Inr entry, w1)
                | (Inl err, w1) \<Rightarrow> (Inr (fallback asset), w1)))"

fun resolveAssets_loop ::
  "Config \<Rightarrow> env \<Rightarrow> WorkerAsset list \<Rightarrow> ResolvedAsset list \<Rightarrow> world
     \<Rightarrow> (thrown + ResolvedAsset list) \<times> world" where
  "resolveAssets_loop cfg e [] resolved w = (Inr resolved, w)"
| "resolveAssets_loop cfg e (asset # rest) resolved w =
     (case resolveAssets_step cfg e asset w of
        (Inl err, w1) \<Rightarrow> (Inl err, w1)
      | (Inr entry, w1) \<Rightarrow> resolveAssets_loop cfg e rest (resolved @ [entry]) w1)"

definition resolveAssets ::
  "Config \<Rightarrow> env \<Rightarrow> WorkerAsset list \<Rightarrow> world \<Rightarrow> (thrown + ResolvedAsset list) \<times> world" where
  "resolveAssets cfg e asset_list w = resolveAssets_loop cfg e asset_list [] w"

section \<open>Render plan\<close>

definition FPS :: jsnum where
  "FPS = Num 30"

text \<open>
  The loop of \<open>buildRenderPlan\<close> over the scenes, with its index \<open>i\<close> and the running
  \<open>currentFrame\<close>. Reading \<open>resolvedAssets[i]\<close> past the end gives \<open>undefined\<close>, and
  \<open>asset?.localPath\<close> is then \<open>undefined\<close> too.
\<close>

fun buildScenes ::
  "nat \<Rightarrow> jsnum \<Rightarrow> WorkerScene list \<Rightarrow> ResolvedAsset list \<Rightarrow> InternalSceneRenderPlan list" where
  "buildScenes i currentFrame [] resolvedAssets = []"
| "buildScenes i currentFrame (scene # rest) resolvedAssets =
     (let durationFrames = Math_ceil (js_div (js_mul (duration scene) FPS) (Num 1000));
          asset = (if i < length resolvedAssets then Some (resolvedAssets ! i) else None)
      in \<lparr>scene_id = js ''scene-'' @ show_nat i,
           startFrame = currentFrame,
           durationInFrames = durationFrames,
           plan_duration = duration scene,
           plan_text = sanitizeText (scene_text scene),
           assetPath = (case asset of None \<Rightarrow> None | Some a \<Rightarrow> localPath a),
           plan_searchTerms = searchTerms scene\<rparr>
         # buildScenes (i + 1) (js_add currentFrame durationFrames) rest resolvedAssets)"

text \<open>\<open>totalDurationMs\<close> and \<open>totalFrames\<close> are computed by the source and not used.\<close>

definition totalDurationMs :: "ShortVideoRenderRequest \<Rightarrow> jsnum" where
  "totalDurationMs request = foldl (\<lambda>sum s. js_add sum (duration s)) (Num 0) (scenes request)"

definition totalFrames :: "ShortVideoRenderRequest \<Rightarrow> jsnum" where
  "totalFrames request = Math_ceil (js_div (js_mul (totalDurationMs request) FPS) (Num 1000))"

definition buildRenderPlan ::
  "ShortVideoRenderRequest \<Rightarrow> Buffer \<Rightarrow> ResolvedAsset list \<Rightarrow> thrown + InternalRenderPlan" where
  "buildRenderPlan request audio resolvedAssets =
     and_then (parseResolution (resolution (config request))) (\<lambda>(w, h).
       Inr \<lparr>width = w, height = h, fps = FPS,
            plan_scenes = buildScenes 0 (Num 0) (scenes request) resolvedAssets,
            audioBuffer = audio,
            plan_tone = tone (config request),
            plan_platform = platform (config request)\<rparr>)"

section \<open>Rendering\<close>

text \<open>
  The polling loop of \<open>renderWithRemotion\<close>. \<open>Date.now()\<close> reads the clock of the world;
  the one-second timer suspends the task for 1000 ms and whatever the environment adds.
\<close>

definition timeoutMs_render :: nat where
  "timeoutMs_render = 180000"

function pollLoop :: "env \<Rightarrow> jsstring \<Rightarrow> nat \<Rightarrow> world \<Rightarrow> (thrown + Buffer) \<times> world" where
  "pollLoop e videoId startTime w =
     (if int (now w) - int startTime < int timeoutMs_render then
        (case status e videoId (polls w) of
           Ready \<Rightarrow> (getVideo e videoId, w\<lparr>polls := polls w + 1\<rparr>)
         | Failed \<Rightarrow> (Inl (new_Error (js ''ShortCreator render failed'')),
                       w\<lparr>polls := polls w + 1\<rparr>)
         | _ \<Rightarrow> pollLoop e videoId startTime (suspend e 1000 (w\<lparr>polls := polls w + 1\<rparr>)))
      else (Inl (new_Error (js ''Render timed out'')), w))"
  by pat_completeness auto
termination
  by (relation "measure (\<lambda>(e, videoId, startTime, w). timeoutMs_render + startTime - now w)")
     (auto simp: suspend_def timeoutMs_render_def)

declare pollLoop.simps [simp del]

definition toSceneInputs :: "InternalRenderPlan \<Rightarrow> SceneInput list" where
  "toSceneInputs renderPlan =
     map (\<lambda>(index, scene).
            \<lparr>input_text = plan_text scene,
             input_searchTerms = plan_searchTerms scene,
             input_audioBuffer = (if index = 0 then Some (audioBuffer renderPlan) else None),
             input_audioDuration =
               (if truthy_number (plan_duration scene)
                then Some (js_div (plan_duration scene) (Num 1000))
                else None)\<rparr>)
         (enumerate 0 (plan_scenes renderPlan))"

definition renderWithRemotion ::
  "env \<Rightarrow> InternalRenderPlan \<Rightarrow> world \<Rightarrow> (thrown + Buffer) \<times> world" where
  "renderWithRemotion e renderPlan w =
     (case addToQueue e (toSceneInputs renderPlan) of
        Inl err \<Rightarrow> (Inl err, suspend e 0 w)
      | Inr videoId \<Rightarrow>
          (let w1 = suspend e 0 w; startTime = now w1 in pollLoop e videoId startTime w1))"

section \<open>Response\<close>

definition uploadVideo ::
  "Config \<Rightarrow> env \<Rightarrow> Buffer \<Rightarrow> world \<Rightarrow> (thrown + jsstring) \<times> world" where
  "uploadVideo cfg e videoBuffer w =
     (let (suffix, w1) = random_suffix e w;
          videoId = js ''video-'' @ show_nat (now w) @ js ''-'' @ suffix;
          fileName = videoId @ js ''.mp4'';
          tempPath = path_join e (tempDirPath cfg) fileName in
      case writeFile e tempPath videoBuffer w1 of
        (Inl err, w2) \<Rightarrow> (Inl err, w2)
      | (Inr _, w2) \<Rightarrow> (Inr (js ''https://storage.example.com/videos/'' @ fileName), w2))"

text \<open>The body of the \<open>try\<close> of \<open>renderVideo\<close>: the six stages in order.\<close>

definition renderVideo_try ::
  "Config \<Rightarrow> env \<Rightarrow> ReceivedRequest \<Rightarrow> world \<Rightarrow> (thrown + response) \<times> world" where
  "renderVideo_try cfg e request w =
     (case validateRequest request of
        Inl err \<Rightarrow> (Inl err, w)
      | Inr validatedRequest \<Rightarrow>
     (case downloadTtsAudio cfg e (ttsUrl (config validatedRequest)) w of
        (Inl err, w1) \<Rightarrow> (Inl err, w1)
      | (Inr audio, w1) \<Rightarrow>
     (case resolveAssets cfg e (assets (config validatedRequest)) w1 of
        (Inl err, w2) \<Rightarrow> (Inl err, w2)
      | (Inr resolvedAssets, w2) \<Rightarrow>
     (case buildRenderPlan validatedRequest audio resolvedAssets of
        Inl err \<Rightarrow> (Inl err, w2)
      | Inr renderPlan \<Rightarrow>
     (case renderWithRemotion e renderPlan w2 of
        (Inl err, w3) \<Rightarrow> (Inl err, w3)
      | (Inr videoBuffer, w3) \<Rightarrow>
          if responseMode cfg = js ''url'' then
            (case uploadVideo cfg e videoBuffer w3 of
               (Inl err, w4) \<Rightarrow> (Inl err, w4)
             | (Inr video_url, w4) \<Rightarrow> (Inr (UrlResponse video_url), w4))
          else (Inr (Binary videoBuffer), w3))))))"

text \<open>
  The argument of the first \<open>logger.info\<close> of \<open>renderVideo\<close>, which stands before the
  \<open>try\<close>: it reads \<open>request.scenes.length\<close> and then \<open>request.config.resolution\<close>, and
  either read throws a \<open>TypeError\<close> when the object read from is \<open>undefined\<close> or
  \<open>null\<close>.
\<close>

definition read_for_log :: "ReceivedRequest \<Rightarrow> thrown + unit" where
  "read_for_log request =
     (case r_scenes request of
        Nullish n \<Rightarrow> Inl (TypeError_read n (js ''length''))
      | _ \<Rightarrow>
          (case r_config request of
             Nullish n \<Rightarrow> Inl (TypeError_read n (js ''resolution''))
           | _ \<Rightarrow> Inr ()))"

text \<open>
  \<open>renderVideo\<close>: the correlation id takes one random suffix; what the first
  \<open>logger.info\<close> throws leaves the function as it is; the \<open>catch\<close> wraps whatever the
  body of the \<open>try\<close> threw.
\<close>

definition renderVideo ::
  "Config \<Rightarrow> env \<Rightarrow> ReceivedRequest \<Rightarrow> world \<Rightarrow> (thrown + response) \<times> world" where
  "renderVideo cfg e request w =
     (let (suffix, w0) = random_suffix e w in
      case read_for_log request of
        Inl err \<Rightarrow> (Inl err, w0)
      | Inr _ \<Rightarrow>
          (case renderVideo_try cfg e request w0 of
             (Inl err, w1) \<Rightarrow>
               (Inl (new_Error (js ''Rendering failed: '' @ normalizeError err)), w1)
           | (Inr result, w1) \<Rightarrow> (Inr result, w1)))"

section \<open>Code points\<close>

text \<open>
  The reading of a string by code points that a \<open>u\<close>-flagged regular expression uses: a
  high surrogate followed by a low surrogate is one code point above \<open>U+FFFF\<close>; any other
  code unit is a code point by itself. A string is well formed when no surrogate stands
  alone.
\<close>

definition isSurrogate :: "16 word \<Rightarrow> bool" where
  "isSurrogate c \<longleftrightarrow> isHighSurrogate c \<or> isLowSurrogate c"

fun codePoints :: "jsstring \<Rightarrow> nat list" where
  "codePoints (h # l # rest) =
     (if isHighSurrogate h \<and> isLowSurrogate l
      then (0x10000 + (unat h - 0xD800) * 0x400 + (unat l - 0xDC00)) # codePoints rest
      else unat h # codePoints (l # rest))"
| "codePoints [c] = [unat c]"
| "codePoints [] = []"

definition wellFormed :: "jsstring \<Rightarrow> bool" where
  "wellFormed s = list_all (\<lambda>cp. \<not> (0xD800 \<le> cp \<and> cp \<le> 0xDFFF)) (codePoints s)"

text \<open>
  The general categories the specification names: \<open>Cc\<close> (control) and, within the Basic
  Multilingual Plane, \<open>Cf\<close> (format).
\<close>

definition unicode_Cc :: "nat \<Rightarrow> bool" where
  "unicode_Cc cp \<longleftrightarrow> cp \<le> 0x1F \<or> (0x7F \<le> cp \<and> cp \<le> 0x9F)"

definition unicode_Cf :: "nat \<Rightarrow> bool" where
  "unicode_Cf cp \<longleftrightarrow>
     cp = 0xAD \<or> (0x600 \<le> cp \<and> cp \<le> 0x605) \<or> cp = 0x61C \<or> cp = 0x6DD \<or> cp = 0x70F
     \<or> (0x890 \<le> cp \<and> cp \<le> 0x891) \<or> cp = 0x8E2 \<or> cp = 0x180E
     \<or> (0x200B \<le> cp \<and> cp \<le> 0x200F) \<or> (0x202A \<le> cp \<and> cp \<le> 0x202E)
     \<or> (0x2060 \<le> cp \<and> cp \<le> 0x2064) \<or> (0x2066 \<le> cp \<and> cp \<le> 0x206F)
     \<or> cp = 0xFEFF \<or> (0xFFF9 \<le> cp \<and> cp \<le> 0xFFFB)"

definition example_text :: jsstring where
  "example_text = js ''Hi'' @ [0x07] @ js '' '' @ [0xD83D, 0xDE00] @ js '' world''"

section \<open>Representable numbers\<close>

text \<open>
  A real number is a binary64 value when it is a multiple of the spacing of its binade.
\<close>

definition representable :: "real \<Rightarrow> bool" where
  "representable a \<longleftrightarrow> (\<exists>m. a = of_int m * 2 powi (binade a - 52))"

text \<open>
  What the running \<open>currentFrame\<close> of \<open>buildRenderPlan\<close> can be: a binary64 value that
  is not negative, or \<open>Infinity\<close>.
\<close>

definition frame_count :: "jsnum \<Rightarrow> bool" where
  "frame_count a \<longleftrightarrow> a = PosInf \<or> (\<exists>x. a = Num x \<and> 0 \<le> x \<and> representable x)"

section \<open>Resolution formats\<close>

text \<open>
  The format the specification names for a resolution, \<open><int>x<int>\<close> with both numbers
  positive.
\<close>

definition isPositiveInt :: "jsstring \<Rightarrow> bool" where
  "isPositiveInt ds \<longleftrightarrow> ds \<noteq> [] \<and> list_all isDigit ds \<and> 0 < digitsValue ds"

definition strict_resolution :: "jsstring \<Rightarrow> bool" where
  "strict_resolution r =
     (case split_js 0x78 r of
        [a, b] \<Rightarrow> isPositiveInt a \<and> isPositiveInt b
      | _ \<Rightarrow> False)"

text \<open>
  The format in terms of the string alone: the number of \<open>x\<close> in it, the parts before and
  after the first \<open>x\<close>, whether a part starts, after white space and at most one sign,
  with a decimal digit, and the number that its leading digits then denote.
\<close>

definition count_x :: "jsstring \<Rightarrow> nat" where
  "count_x r = length (filter (\<lambda>c. c = 0x78) r)"

definition width_part :: "jsstring \<Rightarrow> jsstring" where
  "width_part r = takeWhile (\<lambda>c. c \<noteq> 0x78) r"

definition height_part :: "jsstring \<Rightarrow> jsstring" where
  "height_part r = drop 1 (dropWhile (\<lambda>c. c \<noteq> 0x78) r)"

fun skip_white :: "jsstring \<Rightarrow> jsstring" where
  "skip_white [] = []"
| "skip_white (c # cs) = (if isWhiteSpace c then skip_white cs else c # cs)"

fun starts_with_number :: "jsstring \<Rightarrow> bool" where
  "starts_with_number s =
     (case skip_white s of
        [] \<Rightarrow> False
      | [c] \<Rightarrow> isDigit c
      | c # d # rest \<Rightarrow> isDigit c \<or> ((c = 0x2B \<or> c = 0x2D) \<and> isDigit d))"

fun leading_digits :: "int \<Rightarrow> jsstring \<Rightarrow> int" where
  "leading_digits acc [] = acc"
| "leading_digits acc (c # cs) =
     (if isDigit c then leading_digits (acc * 10 + (uint c - 48)) cs else acc)"

definition leading_value :: "jsstring \<Rightarrow> int" where
  "leading_value s =
     (case skip_white s of
        [] \<Rightarrow> 0
      | c # cs \<Rightarrow>
          if c = 0x2D then - leading_digits 0 cs
          else if c = 0x2B then leading_digits 0 cs
          else leading_digits 0 (c # cs))"

text \<open>
  The three faults of a resolution, in the order in which they are looked for, and the
  resolutions without fault.
\<close>

definition wrong_segment_count :: "jsstring \<Rightarrow> bool" where
  "wrong_segment_count r \<longleftrightarrow> count_x r \<noteq> 1"

definition segment_without_number :: "jsstring \<Rightarrow> bool" where
  "segment_without_number r \<longleftrightarrow>
     count_x r = 1 \<and> \<not> (starts_with_number (width_part r) \<and> starts_with_number (height_part r))"

definition number_not_positive :: "jsstring \<Rightarrow> bool" where
  "number_not_positive r \<longleftrightarrow>
     count_x r = 1 \<and> starts_with_number (width_part r) \<and> starts_with_number (height_part r)
     \<and> \<not> (0 < leading_value (width_part r) \<and> 0 < leading_value (height_part r))"

definition resolution_ok :: "jsstring \<Rightarrow> bool" where
  "resolution_ok r \<longleftrightarrow>
     count_x r = 1 \<and> starts_with_number (width_part r) \<and> starts_with_number (height_part r)
     \<and> 0 < leading_value (width_part r) \<and> 0 < leading_value (height_part r)"

section \<open>Entries of the resolved list\<close>

text \<open>
  What is asked of the entry that \<open>resolveAssets\<close> returns for an asset, given the world
  \<open>wi\<close> in which that asset's iteration starts: it carries the asset's search terms; it is
  the fallback (no local path) when the asset has no URL, when \<open>fetch\<close> rejects (network
  failure, or the abort of the timeout), answers with a status that is not \<open>ok\<close>, or fails
  while the body is read, and when the temporary file cannot be written; anything else is
  the entry of a completed download, with a local path.
\<close>

definition entry_ok :: "Config \<Rightarrow> env \<Rightarrow> WorkerAsset \<Rightarrow> world \<Rightarrow> ResolvedAsset \<Rightarrow> bool" where
  "entry_ok cfg e asset wi entry \<longleftrightarrow>
     resolved_searchTerms entry = asset_searchTerms asset
     \<and> (videoUrl asset = None \<or> videoUrl asset = Some [] \<longrightarrow> entry = fallback asset)
     \<and> (\<forall>url. videoUrl asset = Some url
            \<and> ((\<exists>err. fetch_result e (awaits wi) url = FetchRejected err)
               \<or> (\<exists>code body. fetch_result e (awaits wi) url = Response False code body)
               \<or> (\<exists>code err. fetch_result e (awaits wi) url = Response True code (Inl err))
               \<or> (\<forall>file_path. writeFile_result e (awaits wi + 2) file_path \<noteq> None))
          \<longrightarrow> entry = fallback asset)
     \<and> (entry = fallback asset \<and> localPath entry = None \<and> resolved_videoUrl entry = None
         \<or> (\<exists>url. videoUrl asset = Some url \<and> url \<noteq> []
               \<and> fst (resolveAssets_try cfg e asset url wi) = Inr entry
               \<and> localPath entry \<noteq> None))"

section \<open>Runs of the polling loop\<close>

text \<open>
  The world after \<open>n\<close> rounds of the loop that found the job pending: each round is one
  status query and one second of sleep. \<open>polling_ends\<close> says that the loop started in
  \<open>w\<close> ends at its round \<open>n\<close>: the \<open>n\<close> rounds before found the job queued or rendering,
  each before the deadline, and round \<open>n\<close> either finds the job ready before the deadline
  and returns its video, or finds it failed before the deadline and throws, or finds the
  deadline passed and throws the timeout.
\<close>

fun after_polls :: "env \<Rightarrow> nat \<Rightarrow> world \<Rightarrow> world" where
  "after_polls e 0 w = w"
| "after_polls e (Suc n) w = after_polls e n (suspend e 1000 (w\<lparr>polls := polls w + 1\<rparr>))"

definition polling_ends :: "env \<Rightarrow> jsstring \<Rightarrow> nat \<Rightarrow> world \<Rightarrow> nat \<Rightarrow> bool" where
  "polling_ends e videoId startTime w n \<longleftrightarrow>
     (\<forall>k<n. (status e videoId (polls w + k) = Queued \<or> status e videoId (polls w + k) = Rendering)
              \<and> now (after_polls e k w) < startTime + 180000)
     \<and> (now (after_polls e n w) < startTime + 180000
          \<and> status e videoId (polls w + n) = Ready
          \<and> pollLoop e videoId startTime w
              = (getVideo e videoId, (after_polls e n w)\<lparr>polls := polls w + n + 1\<rparr>)
        \<or> now (after_polls e n w) < startTime + 180000
          \<and> status e videoId (polls w + n) = Failed
          \<and> pollLoop e videoId startTime w
              = (Inl (new_Error (js ''ShortCreator render failed'')),
                 (after_polls e n w)\<lparr>polls := polls w + n + 1\<rparr>)
        \<or> startTime + 180000 \<le> now (after_polls e n w)
          \<and> pollLoop e videoId startTime w
              = (Inl (new_Error (js ''Render timed out'')), after_polls e n w))"

section \<open>Example inputs\<close>

text \<open>A request of the declared type, as it is received.\<close>

definition received_scene :: "WorkerScene \<Rightarrow> ReceivedScene" where
  "received_scene s =
     \<lparr>r_text = Is (scene_text s), r_duration = Is (duration s), r_searchTerms = searchTerms s\<rparr>"

definition received_config :: "WorkerConfig \<Rightarrow> ReceivedConfig" where
  "received_config c =
     \<lparr>r_resolution = Is (resolution c), r_tone = tone c, r_platform = platform c,
      r_ttsUrl = Is (ttsUrl c), r_assets = assets c\<rparr>"

definition received :: "ShortVideoRenderRequest \<Rightarrow> ReceivedRequest" where
  "received request =
     \<lparr>r_scenes = Is (map (\<lambda>s. Is (received_scene s)) (scenes request)),
      r_config = Is (received_config (config request))\<rparr>"

definition example_request :: ShortVideoRenderRequest where
  "example_request =
     \<lparr>scenes = [\<lparr>scene_text = js ''Hello'', duration = Num 1000, searchTerms = [js ''sea'']\<rparr>,
                \<lparr>scene_text = js ''World'', duration = Num 2000, searchTerms = []\<rparr>],
      config = \<lparr>resolution = js ''1080x1920'', tone = js ''NEUTRAL'', platform = js ''TIKTOK'',
                ttsUrl = js ''https://tts.example/a.mp3'',
                assets = [\<lparr>asset_searchTerms = js ''sea'', videoUrl = Some (js ''https://v.example/1.mp4'')\<rparr>,
                          \<lparr>asset_searchTerms = js ''sky'', videoUrl = None\<rparr>]\<rparr>\<rparr>"

definition short_request :: ShortVideoRenderRequest where
  "short_request =
     \<lparr>scenes = [\<lparr>scene_text = js ''a'', duration = Num 1, searchTerms = []\<rparr>,
                \<lparr>scene_text = js ''b'', duration = Num 34, searchTerms = []\<rparr>,
                \<lparr>scene_text = js ''c'', duration = Num 1, searchTerms = []\<rparr>],
      config = \<lparr>resolution = js ''1080x1920'', tone = js ''EPIC'', platform = js ''X'',
                ttsUrl = js ''u'', assets = []\<rparr>\<rparr>"

definition lenient_request :: ShortVideoRenderRequest where
  "lenient_request =
     example_request\<lparr>config := (config example_request)\<lparr>resolution := js ''1080x1920p''\<rparr>\<rparr>"

definition no_x_request :: ShortVideoRenderRequest where
  "no_x_request =
     example_request\<lparr>config := (config example_request)\<lparr>resolution := js ''1080''\<rparr>\<rparr>"

text \<open>
  Requests with one very long scene, with one scene of the least positive duration
  (\<open>5e-324\<close>), and with two scenes whose total is long.
\<close>

definition one_scene_request :: "jsnum \<Rightarrow> ShortVideoRenderRequest" where
  "one_scene_request d =
     short_request\<lparr>scenes := [\<lparr>scene_text = js ''a'', duration = d, searchTerms = []\<rparr>]\<rparr>"

definition long_request :: ShortVideoRenderRequest where
  "long_request = one_scene_request (Num 9007199254740767)"

definition least_positive :: real where
  "least_positive = 1 / 2 ^ 1074"

definition tiny_request :: ShortVideoRenderRequest where
  "tiny_request = one_scene_request (Num least_positive)"

definition two_long_request :: ShortVideoRenderRequest where
  "two_long_request =
     short_request\<lparr>scenes :=
       [\<lparr>scene_text = js ''a'', duration = Num 3148396451011900, searchTerms = []\<rparr>,
        \<lparr>scene_text = js ''b'', duration = Num 514200, searchTerms = []\<rparr>]\<rparr>"

definition long_and_short_request :: ShortVideoRenderRequest where
  "long_and_short_request =
     short_request\<lparr>scenes :=
       [\<lparr>scene_text = js ''a'', duration = Num 9007199254740767, searchTerms = []\<rparr>,
        \<lparr>scene_text = js ''b'', duration = Num 1000, searchTerms = []\<rparr>]\<rparr>"

text \<open>A request body without \<open>scenes\<close>, and one without \<open>config\<close>.\<close>

definition no_scenes_request :: ReceivedRequest where
  "no_scenes_request = (received example_request)\<lparr>r_scenes := Nullish JsUndefined\<rparr>"

definition no_config_request :: ReceivedRequest where
  "no_config_request = (received example_request)\<lparr>r_config := Nullish JsUndefined\<rparr>"

definition example_assets :: "WorkerAsset list" where
  "example_assets =
     [\<lparr>asset_searchTerms = js ''sun'', videoUrl = Some (js ''https://v.example/missing.mp4'')\<rparr>,
      \<lparr>asset_searchTerms = js ''sky'', videoUrl = None\<rparr>,
      \<lparr>asset_searchTerms = js ''sea'', videoUrl = Some (js ''https://v.example/1.mp4'')\<rparr>]"

definition example_config :: Config where
  "example_config = \<lparr>responseMode = js ''url'', audioDownloadTimeoutMs = 0,
                      assetDownloadTimeoutMs = 0, tempDirPath = js ''/tmp''\<rparr>"

definition initial_world :: world where
  "initial_world = \<lparr>now = 1000, awaits = 0, randoms = 0, polls = 0, fetched = [], written = []\<rparr>"

definition example_env :: env where
  "example_env =
     \<lparr>fetch_result = (\<lambda>k url. if url = js ''https://v.example/missing.mp4''
                               then Response False 404 (Inr [])
                               else Response True 200 (Inr [1, 2, 3])),
      writeFile_result = (\<lambda>k file_path. None),
      elapsed = (\<lambda>k. 0),
      random36 = (\<lambda>k. js ''k3x9qa''),
      path_join = (\<lambda>a b. a @ js ''/'' @ b),
      addToQueue = (\<lambda>inputs. Inr (js ''job1'')),
      status = (\<lambda>videoId k. if k < 2 then Queued else Ready),
      getVideo = (\<lambda>videoId. Inr [9, 9])\<rparr>"

definition never_ready_env :: env where
  "never_ready_env = example_env\<lparr>status := (\<lambda>videoId k. Queued)\<rparr>"

definition example_plan :: InternalRenderPlan where
  "example_plan = projr (buildRenderPlan example_request [1, 2, 3] [])"

definition plain_request :: ShortVideoRenderRequest where
  "plain_request = example_request\<lparr>config := (config example_request)\<lparr>assets := []\<rparr>\<rparr>"

definition tts_404_env :: env where
  "tts_404_env = example_env\<lparr>fetch_result := (\<lambda>k url. Response False 404 (Inr []))\<rparr>"

definition store_fails_env :: env where
  "store_fails_env =
     example_env\<lparr>writeFile_result :=
       (\<lambda>k file_path. Some (JsError (js ''Error'') (js ''EACCES: permission denied'')))\<rparr>"

definition video_fails_env :: env where
  "video_fails_env =
     example_env\<lparr>getVideo :=
       (\<lambda>videoId. Inl (JsError (js ''Error'') (js ''EACCES: permission denied'')))\<rparr>"

section \<open>Facts about binary64 rounding\<close>

lemmas f_simps =
  ilog2_up.simps ilog2_down.simps ilog2_def round_half_even_def binade_def
  overflow_threshold_def round64_def Let_def

lemma ilog2_up_spec:
  "1 \<le> x \<Longrightarrow> 0 \<le> ilog2_up x \<and> 2 powi ilog2_up x \<le> x \<and> x < 2 powi (ilog2_up x + 1)"
proof (induction x rule: ilog2_up.induct)
  case (1 x)
  show ?case
  proof (cases "x < 2")
    case True
    with "1.prems" show ?thesis by (simp add: ilog2_up.simps [of x])
  next
    case False
    then have "1 \<le> x / 2" by simp
    from "1.IH" [OF False this] have ih: "0 \<le> ilog2_up (x / 2)"
      "2 powi ilog2_up (x / 2) \<le> x / 2" "x / 2 < 2 powi (ilog2_up (x / 2) + 1)"
      by simp_all
    have e: "ilog2_up x = ilog2_up (x / 2) + 1"
      using False by (simp add: ilog2_up.simps [of x])
    have p: "2 powi (n + 1) = 2 powi n * (2::real)" for n
      by (simp add: power_int_add)
    from ih show ?thesis unfolding e p by simp
  qed
qed

lemma ilog2_down_spec:
  "0 < x \<Longrightarrow> x < 1 \<Longrightarrow>
   ilog2_down x < 0 \<and> 2 powi ilog2_down x \<le> x \<and> x < 2 powi (ilog2_down x + 1)"
proof (induction x rule: ilog2_down.induct)
  case (1 x)
  from "1.prems" have c: "\<not> (x \<le> 0 \<or> 1 \<le> x)" by simp
  then have e: "ilog2_down x = ilog2_down (2 * x) - 1"
    by (simp add: ilog2_down.simps [of x])
  have p: "2 powi (n - 1) = 2 powi n / (2::real)" for n
    by (simp add: power_int_diff)
  show ?case
  proof (cases "1 \<le> 2 * x")
    case True
    then have "ilog2_down (2 * x) = 0" by (simp add: ilog2_down.simps [of "2 * x"])
    with True "1.prems" show ?thesis unfolding e by (simp add: power_int_minus)
  next
    case False
    with "1.prems" have "0 < 2 * x" "2 * x < 1" by simp_all
    from "1.IH" [OF c this] have ih: "ilog2_down (2 * x) < 0"
      "2 powi ilog2_down (2 * x) \<le> 2 * x" "2 * x < 2 powi (ilog2_down (2 * x) + 1)"
      by simp_all
    have q: "2 powi (n + 1) = 2 powi n * (2::real)" for n
      by (simp add: power_int_add)
    from ih(3) have "x < 2 powi ilog2_down (2 * x)" unfolding q by simp
    with ih(1,2) show ?thesis unfolding e p by simp
  qed
qed

lemma ilog2_spec:
  assumes "0 < x"
  shows "2 powi ilog2 x \<le> x" and "x < 2 powi (ilog2 x + 1)"
  using assms ilog2_up_spec [of x] ilog2_down_spec [of x]
  by (auto simp: ilog2_def not_le)

lemma pow2_less_imp: "(2::real) powi a < 2 powi b \<Longrightarrow> a < b"
  using power_int_increasing [of b a "2::real"] by (cases "a < b") auto

lemma ilog2_less: "0 < x \<Longrightarrow> x < 2 powi n \<Longrightarrow> ilog2 x < n"
  using ilog2_spec(1) [of x] pow2_less_imp [of "ilog2 x" n] by simp

lemma ilog2_ge: "2 powi n \<le> x \<Longrightarrow> n \<le> ilog2 x"
proof -
  assume a: "2 powi n \<le> x"
  then have "0 < x" using zero_less_power_int [of "2::real" n] by linarith
  from ilog2_spec(2) [OF this] a have "(2::real) powi n < 2 powi (ilog2 x + 1)" by simp
  from pow2_less_imp [OF this] show ?thesis by simp
qed

lemma ilog2_unique:
  "2 powi e \<le> x \<Longrightarrow> x < 2 powi (e + 1) \<Longrightarrow> ilog2 x = e"
proof -
  assume a: "2 powi e \<le> x" "x < 2 powi (e + 1)"
  then have "0 < x" using zero_less_power_int [of "2::real" e] by linarith
  from ilog2_less [OF this a(2)] ilog2_ge [OF a(1)] show ?thesis by simp
qed

lemma rhe_bounds:
  "real_of_int (round_half_even q) \<le> q + 1 / 2" "q - 1 / 2 \<le> real_of_int (round_half_even q)"
  unfolding round_half_even_def Let_def by (auto; linarith)+

lemma rhe_of_int [simp]: "round_half_even (of_int n) = n"
  by (simp add: round_half_even_def)

lemma rhe_numeral [simp]: "round_half_even (numeral n) = numeral n"
  using rhe_of_int [of "numeral n"] by simp

lemma rhe_floor: "round_half_even q = \<lfloor>q\<rfloor> \<or> round_half_even q = \<lfloor>q\<rfloor> + 1"
  by (simp add: round_half_even_def Let_def)

lemma rhe_mono: "q \<le> q' \<Longrightarrow> round_half_even q \<le> round_half_even q'"
proof -
  assume le: "q \<le> q'"
  then have f: "\<lfloor>q\<rfloor> \<le> \<lfloor>q'\<rfloor>" by (rule floor_mono)
  show ?thesis
  proof (cases "\<lfloor>q\<rfloor> = \<lfloor>q'\<rfloor>")
    case True
    with le have "q - of_int \<lfloor>q\<rfloor> \<le> q' - of_int \<lfloor>q'\<rfloor>" by simp
    with True show ?thesis
      unfolding round_half_even_def Let_def by auto
  next
    case False
    with f have "\<lfloor>q\<rfloor> + 1 \<le> \<lfloor>q'\<rfloor>" by simp
    with rhe_floor [of q] rhe_floor [of q'] show ?thesis by auto
  qed
qed

lemma rhe_0 [simp]: "round_half_even 0 = 0"
  using rhe_of_int [of 0] by simp

lemma rhe_nonneg: "0 \<le> q \<Longrightarrow> 0 \<le> round_half_even q"
  using rhe_mono [of 0 q] by simp

lemma rhe_nonpos: "q \<le> 0 \<Longrightarrow> round_half_even q \<le> 0"
  using rhe_mono [of q 0] by simp

lemma overflow_pos [simp]: "0 < overflow_threshold"
  by (simp only: overflow_threshold_def zero_less_power zero_less_numeral)

lemma overflow_not_le [simp]: "\<not> overflow_threshold \<le> 0"
  using overflow_pos by linarith

lemma tiny_pos: "(0::real) < 2 powi (- 1022)"
  by simp

lemma binade_ge: "- 1022 \<le> binade x"
  using ilog2_ge [of "- 1022" "\<bar>x\<bar>"] by (auto simp: binade_def not_less)

lemma binade_upper: "\<bar>x\<bar> < 2 powi (binade x + 1)"
proof (cases "\<bar>x\<bar> < 2 powi (- 1022)")
  case True
  moreover have "(2::real) powi (- 1022) \<le> 2 powi (- 1022 + 1)"
    by (intro power_int_increasing) simp_all
  ultimately show ?thesis by (simp add: binade_def)
next
  case False
  then have "0 < \<bar>x\<bar>" using tiny_pos by linarith
  from ilog2_spec(2) [OF this] False show ?thesis by (simp add: binade_def)
qed

lemma binade_lower: "2 powi (- 1022) \<le> \<bar>x\<bar> \<Longrightarrow> 2 powi binade x \<le> \<bar>x\<bar>"
proof -
  assume a: "2 powi (- 1022) \<le> \<bar>x\<bar>"
  then have "0 < \<bar>x\<bar>" using tiny_pos by linarith
  from ilog2_spec(1) [OF this] a show ?thesis by (simp add: binade_def)
qed

lemma binade_lower': "- 1022 < binade x \<Longrightarrow> 2 powi binade x \<le> \<bar>x\<bar>"
  using binade_lower [of x] by (cases "\<bar>x\<bar> < 2 powi (- 1022)") (simp_all add: binade_def)

lemma binade_unique:
  "- 1022 \<le> e \<Longrightarrow> 2 powi e \<le> \<bar>x\<bar> \<Longrightarrow> \<bar>x\<bar> < 2 powi (e + 1) \<Longrightarrow> binade x = e"
proof -
  assume a: "- 1022 \<le> e" "2 powi e \<le> \<bar>x\<bar>" "\<bar>x\<bar> < 2 powi (e + 1)"
  from a(1) have "(2::real) powi (- 1022) \<le> 2 powi e"
    by (intro power_int_increasing) simp_all
  with a(2) have "\<not> \<bar>x\<bar> < 2 powi (- 1022)" by simp
  with ilog2_unique [OF a(2,3)] show ?thesis by (simp add: binade_def)
qed

lemma binade_small: "\<bar>x\<bar> < 2 powi (- 1022) \<Longrightarrow> binade x = - 1022"
  by (simp add: binade_def)

lemma binade_mono: "\<bar>a\<bar> \<le> \<bar>b\<bar> \<Longrightarrow> binade a \<le> binade b"
proof (cases "- 1022 < binade a")
  case False
  then show ?thesis using binade_ge [of b] by simp
next
  case True
  assume le: "\<bar>a\<bar> \<le> \<bar>b\<bar>"
  from binade_lower' [OF True] le have l: "2 powi binade a \<le> \<bar>b\<bar>" by simp
  from True have "(2::real) powi (- 1022) \<le> 2 powi binade a"
    by (intro power_int_increasing) simp_all
  with l have "\<not> \<bar>b\<bar> < 2 powi (- 1022)" by simp
  with ilog2_ge [OF l] show ?thesis by (simp add: binade_def)
qed

lemma binade_less:
  assumes "\<bar>x\<bar> < 2 powi n" and "- 1022 < n"
  shows "binade x < n"
proof (rule ccontr)
  assume "\<not> binade x < n"
  then have n: "n \<le> binade x" by simp
  with assms(2) have "- 1022 < binade x" by simp
  from binade_lower' [OF this] have "2 powi binade x \<le> \<bar>x\<bar>" .
  moreover from n have "(2::real) powi n \<le> 2 powi binade x"
    by (intro power_int_increasing) simp_all
  ultimately show False using assms(1) by simp
qed

lemma grid_pos: "(0::real) < 2 powi k"
  by simp

lemma round64_value:
  "round64 x = Num y \<Longrightarrow>
   y = of_int (round_half_even (x / 2 powi (binade x - 52))) * 2 powi (binade x - 52)
   \<and> \<bar>y\<bar> < overflow_threshold"
  by (auto simp: round64_def Let_def split: if_splits)

lemma round64_cases:
  "round64 x = Num (of_int (round_half_even (x / 2 powi (binade x - 52))) * 2 powi (binade x - 52))
   \<or> (0 < x \<and> round64 x = PosInf) \<or> (x \<le> 0 \<and> round64 x = NegInf)"
  by (auto simp: round64_def Let_def)

lemma round64_exact:
  assumes "x = of_int m * 2 powi (binade x - 52)" and "\<bar>x\<bar> < overflow_threshold"
  shows "round64 x = Num x"
proof -
  have "x / 2 powi (binade x - 52) = of_int m"
    using assms(1) by (metis nonzero_mult_div_cancel_right power_int_eq_0_iff zero_neq_numeral)
  then have "of_int (round_half_even (x / 2 powi (binade x - 52))) * 2 powi (binade x - 52) = x"
    using assms(1) by simp
  with assms(2) show ?thesis by (simp add: round64_def Let_def)
qed

lemma round64_error:
  assumes "round64 x = Num y"
  shows "\<bar>y - x\<bar> \<le> 2 powi (binade x - 52) / 2"
proof -
  define P :: real where "P = 2 powi (binade x - 52)"
  define q where "q = x / P"
  have P: "0 < P" by (simp add: P_def)
  then have x: "x = q * P" by (simp add: q_def)
  from round64_value [OF assms] have y: "y = of_int (round_half_even q) * P"
    by (simp add: P_def q_def)
  from rhe_bounds [of q] have "\<bar>of_int (round_half_even q) - q\<bar> \<le> 1 / 2" by linarith
  then have "\<bar>of_int (round_half_even q) - q\<bar> * P \<le> (1 / 2) * P"
    using P by (intro mult_right_mono) simp_all
  moreover have "\<bar>y - x\<bar> = \<bar>of_int (round_half_even q) - q\<bar> * P"
    using P unfolding y by (subst x) (simp add: abs_mult flip: left_diff_distrib)
  ultimately show ?thesis by (simp add: P_def)
qed

lemma int_on_grid:
  assumes "k \<le> 0"
  shows "\<exists>m. real_of_int n = of_int m * 2 powi k"
proof -
  have "(2::real) powi (- k) * 2 powi k = 1"
    by (simp flip: power_int_add)
  moreover have "(2::real) powi (- k) = of_int (2 ^ nat (- k))"
    using assms by (simp add: power_int_nonneg_exp)
  ultimately have "real_of_int n = of_int (n * 2 ^ nat (- k)) * 2 powi k"
    by (simp add: mult.assoc)
  then show ?thesis by blast
qed

lemma round64_int:
  assumes "0 \<le> n" and "n \<le> 2 ^ 53"
  shows "round64 (of_int n) = Num (of_int n)"
proof -
  have small: "\<bar>real_of_int n\<bar> < overflow_threshold"
  proof -
    have "\<bar>real_of_int n\<bar> \<le> 2 ^ 53" using assms by simp
    also have "\<dots> < (2::real) ^ 1024" by (intro power_strict_increasing) simp_all
    finally show ?thesis by (simp only: overflow_threshold_def)
  qed
  have "\<exists>m. real_of_int n = of_int m * 2 powi (binade (of_int n) - 52)"
  proof (cases "n < 2 ^ 53")
    case True
    then have "\<bar>real_of_int n\<bar> < 2 powi (52 + 1)" using assms(1) by simp
    from binade_less [OF this] have "binade (of_int n) \<le> 52" by simp
    then show ?thesis by (intro int_on_grid) simp
  next
    case False
    with assms have n: "n = 2 ^ 53" by simp
    have "binade (of_int n) = 53"
      unfolding n by (rule binade_unique) simp_all
    then show ?thesis unfolding n by (intro exI [of _ "2 ^ 52"]) simp
  qed
  then obtain m where "real_of_int n = of_int m * 2 powi (binade (of_int n) - 52)" by blast
  from round64_exact [OF this small] show ?thesis .
qed

lemma round64_div1000:
  assumes "0 < a" and "a \<le> 2 ^ 53"
  shows "\<exists>y. round64 (real_of_int a / 1000) = Num y \<and> \<lceil>y\<rceil> = \<lceil>real_of_int a / 1000\<rceil>"
proof -
  define x where "x = real_of_int a / 1000"
  define n where "n = \<lceil>x\<rceil>"
  have xpos: "0 < x" using assms(1) by (simp add: x_def)
  have "real_of_int a \<le> 2 ^ 53" using assms(2) by (metis of_int_le_iff of_int_numeral of_int_power)
  then have "x \<le> 2 ^ 53 / 1000" by (simp add: x_def)
  also have "\<dots> < (2::real) ^ 44" by simp
  finally have x44: "\<bar>x\<bar> < 2 powi 44" using xpos by simp
  from binade_less [OF this] have b: "binade x - 52 \<le> - 9" by simp
  define P :: real where "P = 2 powi (binade x - 52)"
  from b have P: "P \<le> 2 powi (- 9)"
    unfolding P_def by (intro power_int_increasing) simp_all
  then have P2: "P / 2 \<le> 1 / 1024" by simp
  define y where "y = of_int (round_half_even (x / P)) * P"
  have Ppos: "0 < P" by (simp add: P_def)
  have err: "\<bar>y - x\<bar> \<le> P / 2"
  proof -
    from rhe_bounds [of "x / P"] have "\<bar>of_int (round_half_even (x / P)) - x / P\<bar> \<le> 1 / 2"
      by linarith
    then have "\<bar>of_int (round_half_even (x / P)) - x / P\<bar> * P \<le> (1 / 2) * P"
      using Ppos by (intro mult_right_mono) simp_all
    moreover have "\<bar>y - x\<bar> = \<bar>of_int (round_half_even (x / P)) - x / P\<bar> * P"
    proof -
      have "y - x = (of_int (round_half_even (x / P)) - x / P) * P"
        using Ppos by (simp add: y_def left_diff_distrib)
      then show ?thesis using Ppos by (simp add: abs_mult)
    qed
    ultimately show ?thesis by simp
  qed
  have ysmall: "\<bar>y\<bar> < overflow_threshold"
  proof -
    from x44 have "\<bar>x\<bar> < 2 ^ 44" by simp
    with err P2 have "\<bar>y\<bar> < 2 ^ 44 + 1" by linarith
    also have "\<dots> \<le> (2::real) ^ 45" by simp
    also have "\<dots> < (2::real) ^ 1024" by (intro power_strict_increasing) simp_all
    finally show ?thesis by (simp only: overflow_threshold_def)
  qed
  then have r: "round64 x = Num y"
    by (simp add: round64_def Let_def y_def P_def)
  have "\<lceil>y\<rceil> = n"
  proof (cases "1000 dvd a")
    case True
    then obtain N where N: "a = 1000 * N" by (auto elim: dvdE)
    then have xN: "x = of_int N" by (simp add: x_def)
    from b have "\<exists>m. real_of_int N = of_int m * 2 powi (binade x - 52)"
      by (intro int_on_grid) simp
    then obtain m where m: "x = of_int m * P" by (auto simp: xN P_def)
    then have "x / P = of_int m" using Ppos by simp
    then have "y = x" unfolding y_def by (simp add: m)
    then show ?thesis by (simp add: n_def)
  next
    case False
    have n1: "real_of_int n - 1 < x" and n2: "x \<le> real_of_int n"
      unfolding n_def by linarith+
    from n1 have "real_of_int (1000 * (n - 1)) < real_of_int a"
      by (simp add: x_def field_simps)
    then have "1000 * (n - 1) < a" by (simp only: of_int_less_iff)
    then have "1000 * (n - 1) + 1 \<le> a" by simp
    then have "real_of_int (1000 * (n - 1) + 1) \<le> real_of_int a" by (simp only: of_int_le_iff)
    then have lo: "real_of_int n - 1 + 1 / 1000 \<le> x" by (simp add: x_def field_simps)
    from n2 have "real_of_int a \<le> real_of_int (1000 * n)"
      by (simp add: x_def field_simps)
    then have "a \<le> 1000 * n" by (simp only: of_int_le_iff)
    moreover from False have "a \<noteq> 1000 * n" by auto
    ultimately have "a \<le> 1000 * n - 1" by simp
    then have "real_of_int a \<le> real_of_int (1000 * n - 1)" by (simp only: of_int_le_iff)
    then have hi: "x \<le> real_of_int n - 1 / 1000" by (simp add: x_def field_simps)
    from err P2 lo hi have "real_of_int n - 1 < y" "y \<le> real_of_int n" by linarith+
    then show ?thesis by (rule ceiling_unique)
  qed
  with r show ?thesis unfolding x_def n_def by blast
qed

lemma round64_ge_pow:
  assumes "2 powi binade x \<le> x"
  shows "round64 x = PosInf \<or> (\<exists>y. round64 x = Num y \<and> 2 powi binade x \<le> y)"
proof -
  define P :: real where "P = 2 powi (binade x - 52)"
  have Ppos: "0 < P" by (simp add: P_def)
  have xpos: "0 < x" using assms zero_less_power_int [of "2::real" "binade x"] by linarith
  have "(2::real) powi (52 + (binade x - 52)) = 2 powi 52 * 2 powi (binade x - 52)"
    by (rule power_int_add) simp
  then have split: "(2::real) powi binade x = 2 powi 52 * P"
    unfolding P_def by simp
  then have "real_of_int (2 ^ 52) \<le> x / P"
    using assms Ppos by (simp add: field_simps)
  from rhe_mono [OF this] have "2 ^ 52 \<le> round_half_even (x / P)" by simp
  then have "real_of_int (2 ^ 52) \<le> real_of_int (round_half_even (x / P))"
    by (simp only: of_int_le_iff)
  then have "real_of_int (2 ^ 52) * P \<le> real_of_int (round_half_even (x / P)) * P"
    using Ppos by (intro mult_right_mono) simp_all
  then have "2 powi binade x \<le> real_of_int (round_half_even (x / P)) * P"
    unfolding split by simp
  with round64_cases [of x] xpos show ?thesis
    unfolding P_def by auto
qed

lemma round64_nonneg:
  assumes "0 \<le> x"
  shows "round64 x = PosInf \<or> (\<exists>y. round64 x = Num y \<and> 0 \<le> y)"
proof -
  have "0 \<le> real_of_int (round_half_even (x / 2 powi (binade x - 52))) * 2 powi (binade x - 52)"
    using assms by (intro mult_nonneg_nonneg) (simp_all add: rhe_nonneg)
  with round64_cases [of x] assms show ?thesis
    by (auto simp: round64_def Let_def split: if_splits)
qed

lemma round64_nonpos:
  assumes "x \<le> 0"
  shows "round64 x = NegInf \<or> (\<exists>y. round64 x = Num y \<and> y \<le> 0)"
proof -
  have "x / 2 powi (binade x - 52) \<le> 0"
    using assms by (simp add: divide_nonpos_pos)
  then have "real_of_int (round_half_even (x / 2 powi (binade x - 52))) \<le> 0"
    by (simp add: rhe_nonpos)
  then have "real_of_int (round_half_even (x / 2 powi (binade x - 52))) * 2 powi (binade x - 52) \<le> 0"
    by (intro mult_nonpos_nonneg) simp_all
  with round64_cases [of x] assms show ?thesis by auto
qed

lemma round64_ge_one:
  assumes "1 \<le> x"
  shows "round64 x = PosInf \<or> (\<exists>y. round64 x = Num y \<and> 1 \<le> y)"
proof -
  have "(2::real) powi 0 \<le> \<bar>x\<bar>" using assms by simp
  then have b: "0 \<le> binade x"
  proof (cases "binade x < 0")
    case True
    then have "binade x + 1 \<le> 0" by simp
    then have "(2::real) powi (binade x + 1) \<le> 2 powi 0"
      by (intro power_int_increasing) simp_all
    with binade_upper [of x] \<open>2 powi 0 \<le> \<bar>x\<bar>\<close> show ?thesis by simp
  qed simp
  then have "- 1022 < binade x" by simp
  from binade_lower' [OF this] assms have l: "2 powi binade x \<le> x" by simp
  from b have "(2::real) powi 0 \<le> 2 powi binade x"
    by (intro power_int_increasing) simp_all
  with round64_ge_pow [OF l] show ?thesis by auto
qed

lemma pow2_split: "(2::real) powi (b + 1) = 2 powi 53 * 2 powi (b - 52)"
proof -
  have "(2::real) powi (53 + (b - 52)) = 2 powi 53 * 2 powi (b - 52)"
    by (rule power_int_add) simp
  then show ?thesis by (simp add: add.commute)
qed

lemma pow2_split': "(2::real) powi b = 2 powi 52 * 2 powi (b - 52)"
proof -
  have "(2::real) powi (52 + (b - 52)) = 2 powi 52 * 2 powi (b - 52)"
    by (rule power_int_add) simp
  then show ?thesis by simp
qed

lemma round64_representable:
  assumes "0 \<le> x" and "round64 x = Num y"
  shows "representable y" and "0 \<le> y" and "round64 y = Num y"
proof -
  define b where "b = binade x"
  define P :: real where "P = 2 powi (b - 52)"
  define m where "m = round_half_even (x / P)"
  have Ppos: "0 < P" by (simp add: P_def)
  from round64_value [OF assms(2)] have y: "y = of_int m * P"
    unfolding m_def P_def b_def by blast
  from round64_value [OF assms(2)] have ysmall: "\<bar>y\<bar> < overflow_threshold"
    by blast
  have "0 \<le> x / P" using assms(1) Ppos by simp
  then have m0: "0 \<le> m" unfolding m_def by (rule rhe_nonneg)
  then show y0: "0 \<le> y" unfolding y using Ppos by simp
  have "\<bar>x\<bar> < 2 powi 53 * P"
    using binade_upper [of x] unfolding pow2_split P_def b_def .
  then have "x / P \<le> real_of_int (2 ^ 53)" using Ppos assms(1) by (simp add: field_simps)
  from rhe_mono [OF this] have m53: "m \<le> 2 ^ 53" by (simp add: m_def)
  have bge: "- 1022 \<le> b" unfolding b_def by (rule binade_ge)
  have "\<exists>m'. y = of_int m' * 2 powi (binade y - 52)"
  proof (cases "m < 2 ^ 52")
    case True
    then have "real_of_int m < real_of_int (2 ^ 52)" by (simp only: of_int_less_iff)
    then have "real_of_int m * P < 2 powi 52 * P" using Ppos by simp
    then have ylt: "y < 2 powi b" unfolding y P_def pow2_split' [symmetric] .
    have "b = - 1022"
    proof (rule ccontr)
      assume "b \<noteq> - 1022"
      with bge have "- 1022 < binade x" by (simp add: b_def)
      from binade_lower' [OF this] assms(1) have "2 powi 52 * P \<le> x"
        unfolding P_def b_def pow2_split' [symmetric] by simp
      then have "real_of_int (2 ^ 52) \<le> x / P" using Ppos by (simp add: field_simps)
      from rhe_mono [OF this] have "2 ^ 52 \<le> m" by (simp add: m_def)
      with True show False by simp
    qed
    with ylt y0 have "binade y = b" by (simp add: binade_small)
    with y have "y = of_int m * 2 powi (binade y - 52)" unfolding P_def by simp
    then show ?thesis ..
  next
    case False
    then have m52: "2 ^ 52 \<le> m" by simp
    then have "real_of_int (2 ^ 52) \<le> real_of_int m" by (simp only: of_int_le_iff)
    then have "2 powi 52 * P \<le> real_of_int m * P" using Ppos by simp
    then have yge: "2 powi b \<le> y" unfolding y P_def pow2_split' [symmetric] .
    show ?thesis
    proof (cases "m < 2 ^ 53")
      case True
      then have "real_of_int m < real_of_int (2 ^ 53)" by (simp only: of_int_less_iff)
      then have "real_of_int m * P < 2 powi 53 * P" using Ppos by simp
      then have "y < 2 powi (b + 1)" unfolding y P_def pow2_split [symmetric] .
      with yge y0 bge have "binade y = b" by (intro binade_unique) simp_all
      with y have "y = of_int m * 2 powi (binade y - 52)" unfolding P_def by simp
      then show ?thesis ..
    next
      case False
      with m53 have m: "m = 2 ^ 53" by simp
      have y1: "y = 2 powi (b + 1)" unfolding y m P_def pow2_split by simp
      have "(2::real) powi (b + 1) < 2 powi (b + 1 + 1)"
        by (intro power_int_strict_increasing) simp_all
      with y1 bge have bin: "binade y = b + 1" by (intro binade_unique) simp_all
      have "y = real_of_int (2 ^ 52) * 2 powi (b + 1 - 52)"
        unfolding y1 using pow2_split' [of "b + 1"] by simp
      then have "y = real_of_int (2 ^ 52) * 2 powi (binade y - 52)" unfolding bin .
      then show ?thesis ..
    qed
  qed
  then show r: "representable y" by (simp add: representable_def)
  then obtain m' where "y = of_int m' * 2 powi (binade y - 52)"
    by (auto simp: representable_def)
  from round64_exact [OF this ysmall] show "round64 y = Num y" .
qed

lemma round64_add_ge:
  assumes "representable a" and "0 \<le> a" and "0 \<le> b"
  shows "round64 (a + b) = PosInf \<or> (\<exists>y. round64 (a + b) = Num y \<and> a \<le> y)"
proof -
  define x where "x = a + b"
  have xa: "\<bar>a\<bar> \<le> \<bar>x\<bar>" and x0: "0 \<le> x" and ax: "a \<le> x"
    using assms(2,3) by (simp_all add: x_def)
  define P :: real where "P = 2 powi (binade x - 52)"
  have Ppos: "0 < P" by (simp add: P_def)
  from assms(1) obtain ma where ma: "a = of_int ma * 2 powi (binade a - 52)"
    by (auto simp: representable_def)
  have "round64 x = PosInf \<or> (\<exists>y. round64 x = Num y \<and> a \<le> y)"
  proof (cases "binade a = binade x")
    case True
    with ma have a: "a = of_int ma * P" by (simp add: P_def)
    then have "a / P = of_int ma" using Ppos by simp
    moreover have "a / P \<le> x / P" using ax Ppos by (simp add: divide_right_mono)
    ultimately have "round_half_even (of_int ma) \<le> round_half_even (x / P)"
      using rhe_mono [of "a / P" "x / P"] by simp
    then have "ma \<le> round_half_even (x / P)" by simp
    then have "real_of_int ma \<le> real_of_int (round_half_even (x / P))"
      by (simp only: of_int_le_iff)
    then have "real_of_int ma * P \<le> real_of_int (round_half_even (x / P)) * P"
      using Ppos by (intro mult_right_mono) simp_all
    then have "a \<le> real_of_int (round_half_even (x / P)) * P" using a by simp
    moreover have "\<not> (x \<le> 0 \<and> round64 x = NegInf)"
      using round64_nonneg [OF x0] by auto
    ultimately show ?thesis using round64_cases [of x] unfolding P_def by auto
  next
    case False
    with binade_mono [OF xa] have lt: "binade a + 1 \<le> binade x" by simp
    with binade_ge [of a] have "- 1022 < binade x" by simp
    from binade_lower' [OF this] x0 have "2 powi binade x \<le> x" by simp
    from round64_ge_pow [OF this]
    have "round64 x = PosInf \<or> (\<exists>y. round64 x = Num y \<and> 2 powi binade x \<le> y)" .
    moreover have "a < 2 powi binade x"
    proof -
      have "a \<le> \<bar>a\<bar>" by simp
      also have "\<dots> < 2 powi (binade a + 1)" by (rule binade_upper)
      also have "\<dots> \<le> 2 powi binade x" using lt by (intro power_int_increasing) simp_all
      finally show ?thesis .
    qed
    ultimately show ?thesis by auto
  qed
  then show ?thesis by (simp add: x_def)
qed

lemma representable_0 [simp]: "representable 0"
  by (simp add: representable_def)

section \<open>Facts about frame counts\<close>

lemma round64_numeral:
  "(numeral n :: int) \<le> 2 ^ 53 \<Longrightarrow> round64 (numeral n) = Num (numeral n)"
  using round64_int [of "numeral n"] by simp

lemma round64_0 [simp]: "round64 0 = Num 0"
  using round64_int [of 0] by simp

lemma round64_1 [simp]: "round64 1 = Num 1"
  using round64_int [of 1] by simp

lemma representable_int:
  assumes "0 \<le> n" and "n \<le> 2 ^ 53"
  shows "representable (of_int n)"
  using round64_representable(1) [of "of_int n" "of_int n"] round64_int [OF assms] assms(1)
  by simp

lemma binade_ge_52:
  assumes "2 ^ 52 \<le> \<bar>z\<bar>"
  shows "52 \<le> binade z"
proof (rule ccontr)
  assume "\<not> 52 \<le> binade z"
  then have "binade z + 1 \<le> 52" by simp
  then have "(2::real) powi (binade z + 1) \<le> 2 powi 52"
    by (intro power_int_increasing) simp_all
  with binade_upper [of z] have "\<bar>z\<bar> < 2 powi 52" by linarith
  with assms show False by simp
qed

lemma representable_big_int:
  assumes "representable z" and "2 ^ 52 \<le> \<bar>z\<bar>"
  shows "\<exists>n. z = of_int n"
proof -
  from assms(1) obtain m where m: "z = of_int m * 2 powi (binade z - 52)"
    unfolding representable_def by blast
  from binade_ge_52 [OF assms(2)] have k: "0 \<le> binade z - 52" by simp
  then have "(2::real) powi (binade z - 52) = 2 ^ nat (binade z - 52)"
    by (simp add: power_int_def)
  with m have "z = of_int (m * 2 ^ nat (binade z - 52))" by simp
  then show ?thesis ..
qed

lemma representable_ceiling:
  assumes "representable z" and "0 \<le> z"
  shows "representable (of_int \<lceil>z\<rceil>)" and "0 \<le> \<lceil>z\<rceil>"
proof -
  from assms(2) show c: "0 \<le> \<lceil>z\<rceil>" by simp
  show "representable (of_int \<lceil>z\<rceil>)"
  proof (cases "z < 2 ^ 52")
    case True
    then have "\<lceil>z\<rceil> \<le> 2 ^ 52" by (simp add: ceiling_le_iff)
    then have "\<lceil>z\<rceil> \<le> 2 ^ 53" by simp
    with c show ?thesis by (rule representable_int)
  next
    case False
    with assms(2) have "2 ^ 52 \<le> \<bar>z\<bar>" by simp
    from representable_big_int [OF assms(1) this] obtain n where "z = of_int n" ..
    with assms(1) show ?thesis by simp
  qed
qed

lemma frame_count_0 [simp]: "frame_count (Num 0)"
  by (simp add: frame_count_def)

lemma frame_count_PosInf [simp]: "frame_count PosInf"
  by (simp add: frame_count_def)

lemma frame_count_NumI: "0 \<le> x \<Longrightarrow> representable x \<Longrightarrow> frame_count (Num x)"
  by (simp add: frame_count_def)

lemma frame_count_cases:
  assumes "frame_count a"
  obtains "a = PosInf" | x where "a = Num x" "0 \<le> x" "representable x"
  using assms unfolding frame_count_def by blast

lemma positive_cases:
  assumes "js_gt d (Num 0)"
  obtains "d = PosInf" | x where "d = Num x" "0 < x"
  using assms by (cases d) (simp_all add: js_gt_def)

lemma frames_frame_count:
  assumes "js_gt d (Num 0)"
  shows "frame_count (Math_ceil (js_div (js_mul d FPS) (Num 1000)))"
  using assms
proof (cases rule: positive_cases)
  case 1
  then show ?thesis by (simp add: FPS_def signed_inf_def)
next
  case (2 x)
  then have "0 \<le> x * 30" by simp
  from round64_nonneg [OF this] show ?thesis
  proof
    assume "round64 (x * 30) = PosInf"
    with 2 show ?thesis by (simp add: FPS_def signed_inf_def)
  next
    assume "\<exists>y. round64 (x * 30) = Num y \<and> 0 \<le> y"
    then obtain y where y: "round64 (x * 30) = Num y" "0 \<le> y" by blast
    then have q: "0 \<le> y / 1000" by simp
    from round64_nonneg [OF q] show ?thesis
    proof
      assume "round64 (y / 1000) = PosInf"
      with 2 y show ?thesis by (simp add: FPS_def)
    next
      assume "\<exists>z. round64 (y / 1000) = Num z \<and> 0 \<le> z"
      then obtain z where z: "round64 (y / 1000) = Num z" "0 \<le> z" by blast
      from round64_representable(1) [OF q z(1)] have "representable z" .
      from representable_ceiling [OF this z(2)] have "frame_count (Num (of_int \<lceil>z\<rceil>))"
        by (intro frame_count_NumI) simp_all
      with 2 y z show ?thesis by (simp add: FPS_def)
    qed
  qed
qed

lemma frame_count_add:
  assumes "frame_count a" and "frame_count b"
  shows "frame_count (js_add a b)" and "js_le a (js_add a b)"
proof -
  have "frame_count (js_add a b) \<and> js_le a (js_add a b)"
    using assms(1)
  proof (cases rule: frame_count_cases)
    case 1
    with assms(2) show ?thesis
      by (cases rule: frame_count_cases) (simp_all add: js_le_def)
  next
    case a: (2 x)
    from assms(2) show ?thesis
    proof (cases rule: frame_count_cases)
      case 1
      with a show ?thesis by (simp add: js_le_def)
    next
      case b: (2 y)
      from round64_add_ge [OF a(3) a(2) b(2)] show ?thesis
      proof
        assume "round64 (x + y) = PosInf"
        with a b show ?thesis by (simp add: js_le_def)
      next
        assume "\<exists>z. round64 (x + y) = Num z \<and> x \<le> z"
        then obtain z where z: "round64 (x + y) = Num z" "x \<le> z" by blast
        from a(2) b(2) have "0 \<le> x + y" by simp
        from round64_representable(1,2) [OF this z(1)] have "frame_count (Num z)"
          by (intro frame_count_NumI)
        with a b z show ?thesis by (auto simp: js_le_def)
      qed
    qed
  qed
  then show "frame_count (js_add a b)" and "js_le a (js_add a b)" by simp_all
qed

section \<open>Facts about validation\<close>

lemmas eval_simps =
  js_def new_Error_def assert_def and_then_def isWhiteSpace_def trim_def isDigit_def
  digitsValue_def parseInt10_def parseResolution_def isControl_def isHighSurrogate_def
  isLowSurrogate_def sanitizeText_def validateRequest_def validateConfig_def
  validateScene_def received_def received_scene_def received_config_def js_gt_def
  isNaN_def round64_numeral Let_def

lemma example_request_valid: "validateRequest (received example_request) = Inr example_request"
  by (simp add: example_request_def eval_simps)

lemma short_request_valid: "validateRequest (received short_request) = Inr short_request"
  by (simp add: short_request_def eval_simps)

lemma long_request_valid: "validateRequest (received long_request) = Inr long_request"
  by (simp add: long_request_def one_scene_request_def short_request_def eval_simps)

lemma least_positive_pos: "0 < least_positive"
  by (simp add: least_positive_def)

lemma tiny_request_valid: "validateRequest (received tiny_request) = Inr tiny_request"
  by (simp add: tiny_request_def one_scene_request_def short_request_def eval_simps
      least_positive_pos)

lemma two_long_request_valid:
  "validateRequest (received two_long_request) = Inr two_long_request"
  by (simp add: two_long_request_def short_request_def eval_simps)

lemma long_and_short_request_valid:
  "validateRequest (received long_and_short_request) = Inr long_and_short_request"
  by (simp add: long_and_short_request_def short_request_def eval_simps)

lemma and_then_Inr_iff:
  "and_then r f = Inr y \<longleftrightarrow> (\<exists>v. r = Inr v \<and> f v = Inr y)"
  by (cases r) (simp_all add: and_then_def)

lemma assert_Inr_iff: "assert c m = Inr u \<longleftrightarrow> c"
  by (simp add: assert_def)

lemma typeof_checked_Inr_iff: "typeof_checked v m = Inr x \<longleftrightarrow> v = Is x"
  by (cases v) (simp_all add: new_Error_def)

lemma validateScene_Inr:
  "validateScene i scene = Inr s \<Longrightarrow> js_gt (duration s) (Num 0) \<and> trim (scene_text s) \<noteq> []"
  by (cases scene)
     (auto simp: validateScene_def and_then_Inr_iff assert_Inr_iff typeof_checked_Inr_iff)

lemma validateScenes_Inr:
  "validateScenes i received_scenes = Inr ss \<Longrightarrow>
   length ss = length received_scenes
   \<and> (\<forall>s \<in> set ss. js_gt (duration s) (Num 0) \<and> trim (scene_text s) \<noteq> [])"
proof (induction received_scenes arbitrary: i ss)
  case Nil
  then show ?case by auto
next
  case (Cons scene rest)
  from Cons.prems obtain s ss' where s: "validateScene i scene = Inr s"
    and r: "validateScenes (i + 1) rest = Inr ss'" and e: "ss = s # ss'"
    by (auto simp: and_then_Inr_iff)
  from Cons.IH [OF r] validateScene_Inr [OF s] e show ?case by simp
qed

lemma validateConfig_Inr:
  assumes "validateConfig rcv = Inr c"
  shows "ttsUrl c \<noteq> []"
    and "\<exists>w h. parseResolution (resolution c) = Inr (w, h) \<and> js_gt w (Num 0) \<and> js_gt h (Num 0)"
proof -
  from assms obtain rc where rc: "rcv = Is rc"
    by (cases rcv) (simp_all add: validateConfig_def new_Error_def split: if_splits)
  from assms obtain url res w h where
    "r_ttsUrl rc = Is url" "url \<noteq> []" "r_resolution rc = Is res"
    "parseResolution res = Inr (w, h)" "js_gt w (Num 0)" "js_gt h (Num 0)"
    and c: "c = \<lparr>resolution = res, tone = r_tone rc, platform = r_platform rc,
                ttsUrl = url, assets = r_assets rc\<rparr>"
    unfolding rc validateConfig_def
    by (auto simp: and_then_Inr_iff assert_Inr_iff typeof_checked_Inr_iff split: dyn.splits)
  then show "ttsUrl c \<noteq> []"
    and "\<exists>w h. parseResolution (resolution c) = Inr (w, h) \<and> js_gt w (Num 0) \<and> js_gt h (Num 0)"
    by simp_all
qed

lemma validateRequest_Inr:
  assumes "validateRequest request = Inr r"
  shows "scenes r \<noteq> []"
    and "\<And>s. s \<in> set (scenes r) \<Longrightarrow> js_gt (duration s) (Num 0)"
    and "\<And>s. s \<in> set (scenes r) \<Longrightarrow> trim (scene_text s) \<noteq> []"
    and "ttsUrl (config r) \<noteq> []"
    and "\<exists>w h. parseResolution (resolution (config r)) = Inr (w, h)
           \<and> js_gt w (Num 0) \<and> js_gt h (Num 0)"
proof -
  from assms obtain received_scenes ss c where
    n: "received_scenes \<noteq> []" and s: "validateScenes 0 received_scenes = Inr ss"
    and c: "validateConfig (r_config request) = Inr c" and r: "r = \<lparr>scenes = ss, config = c\<rparr>"
    unfolding validateRequest_def
    by (auto simp: and_then_Inr_iff assert_Inr_iff)
  from validateScenes_Inr [OF s] n r show "scenes r \<noteq> []" by auto
  from validateScenes_Inr [OF s] r
  show "\<And>s. s \<in> set (scenes r) \<Longrightarrow> js_gt (duration s) (Num 0)"
    and "\<And>s. s \<in> set (scenes r) \<Longrightarrow> trim (scene_text s) \<noteq> []" by simp_all
  from validateConfig_Inr [OF c] r show "ttsUrl (config r) \<noteq> []"
    and "\<exists>w h. parseResolution (resolution (config r)) = Inr (w, h)
           \<and> js_gt w (Num 0) \<and> js_gt h (Num 0)" by simp_all
qed

section \<open>Facts about the render plan\<close>

lemma length_buildScenes: "length (buildScenes i cf ss ras) = length ss"
  by (induction ss arbitrary: i cf) (simp_all add: Let_def)

lemma buildScenes_first: "ss \<noteq> [] \<Longrightarrow> startFrame (buildScenes i cf ss ras ! 0) = cf"
  by (cases ss) (simp_all add: Let_def)

lemma buildScenes_next:
  "Suc k < length ss \<Longrightarrow>
   startFrame (buildScenes i cf ss ras ! Suc k)
     = js_add (startFrame (buildScenes i cf ss ras ! k))
              (durationInFrames (buildScenes i cf ss ras ! k))"
proof (induction ss arbitrary: i cf k)
  case Nil
  then show ?case by simp
next
  case (Cons s ss)
  show ?case
  proof (cases k)
    case 0
    with Cons.prems have "ss \<noteq> []" by auto
    with 0 show ?thesis by (simp add: Let_def buildScenes_first)
  next
    case (Suc j)
    with Cons.prems have "Suc j < length ss" by simp
    from Cons.IH [OF this] Suc show ?thesis by (simp add: Let_def)
  qed
qed

lemma buildScenes_duration:
  "k < length ss \<Longrightarrow>
   durationInFrames (buildScenes i cf ss ras ! k)
     = Math_ceil (js_div (js_mul (duration (ss ! k)) FPS) (Num 1000))"
proof (induction ss arbitrary: i cf k)
  case Nil
  then show ?case by simp
next
  case (Cons s ss)
  then show ?case by (cases k) (simp_all add: Let_def)
qed

lemma buildScenes_assetPath:
  "k < length ss \<Longrightarrow>
   assetPath (buildScenes i cf ss ras ! k)
     = (if i + k < length ras then localPath (ras ! (i + k)) else None)"
proof (induction ss arbitrary: i cf k)
  case Nil
  then show ?case by simp
next
  case (Cons s ss)
  then show ?case by (cases k) (simp_all add: Let_def)
qed

lemma buildScenes_frame_count:
  assumes "frame_count cf" and "\<And>s. s \<in> set ss \<Longrightarrow> js_gt (duration s) (Num 0)"
    and "k < length ss"
  shows "frame_count (startFrame (buildScenes i cf ss ras ! k))"
  using assms
proof (induction ss arbitrary: i cf k)
  case Nil
  then show ?case by simp
next
  case (Cons s ss)
  show ?case
  proof (cases k)
    case 0
    with Cons.prems(1) show ?thesis by (simp add: Let_def)
  next
    case (Suc j)
    have "frame_count (Math_ceil (js_div (js_mul (duration s) FPS) (Num 1000)))"
      by (rule frames_frame_count) (simp add: Cons.prems(2))
    with Cons.prems(1)
    have "frame_count (js_add cf (Math_ceil (js_div (js_mul (duration s) FPS) (Num 1000))))"
      by (rule frame_count_add(1))
    moreover from Suc Cons.prems(3) have "j < length ss" by simp
    ultimately have "frame_count (startFrame (buildScenes (i + 1)
         (js_add cf (Math_ceil (js_div (js_mul (duration s) FPS) (Num 1000)))) ss ras ! j))"
      using Cons.prems(2) by (intro Cons.IH) simp_all
    with Suc show ?thesis by (simp add: Let_def)
  qed
qed

lemma buildRenderPlan_validated:
  assumes "validateRequest request = Inr r"
  shows "\<exists>w h. buildRenderPlan r audio ras =
           Inr \<lparr>width = w, height = h, fps = FPS,
                plan_scenes = buildScenes 0 (Num 0) (scenes r) ras,
                audioBuffer = audio,
                plan_tone = tone (config r),
                plan_platform = platform (config r)\<rparr>"
proof -
  from validateRequest_Inr(5) [OF assms] obtain w h
    where "parseResolution (resolution (config r)) = Inr (w, h)" by blast
  then show ?thesis by (simp add: buildRenderPlan_def and_then_def)
qed

lemma frames_ceiling:
  "\<lceil>real_of_int d * 30 / 1000\<rceil> = n \<longleftrightarrow> 1000 * (n - 1) < d * 30 \<and> d * 30 \<le> 1000 * n"
proof -
  define q where "q = (- (d * 30)) div 1000"
  define r where "r = (- (d * 30)) mod 1000"
  have c: "\<lceil>real_of_int (d * 30) / 1000\<rceil> = - q"
    using ceiling_divide_eq_div [of "d * 30" 1000] by (simp add: q_def)
  have "- (d * 30) = 1000 * q + r"
    by (simp add: q_def r_def)
  then have qr: "d * 30 = - 1000 * q - r"
    by simp
  have r: "0 \<le> r" "r < 1000"
    by (simp_all add: r_def)
  have "- q = n \<longleftrightarrow> 1000 * (n - 1) < d * 30 \<and> d * 30 \<le> 1000 * n"
  proof
    assume "- q = n"
    then have "q = - n" by simp
    with qr r show "1000 * (n - 1) < d * 30 \<and> d * 30 \<le> 1000 * n" by simp
  next
    assume "1000 * (n - 1) < d * 30 \<and> d * 30 \<le> 1000 * n"
    then have a: "1000 * (n - 1) < d * 30" and b: "d * 30 \<le> 1000 * n" by simp_all
    from a qr r have "1000 * (n + q) < 1000 * 1" by (simp add: algebra_simps)
    then have 1: "n + q < 1" by (simp only: mult_less_cancel_left_pos zero_less_numeral)
    from b qr r have "1000 * (- 1) < 1000 * (n + q)" by (simp add: algebra_simps)
    then have 2: "- 1 < n + q" by (simp only: mult_less_cancel_left_pos zero_less_numeral)
    from 1 2 show "- q = n" by simp
  qed
  with c show ?thesis by simp
qed

lemma frames_positive: "0 < d \<Longrightarrow> 1 \<le> \<lceil>real_of_int d * 30 / 1000\<rceil>"
  using frames_ceiling [of d "\<lceil>real_of_int d * 30 / 1000\<rceil>"] by simp

text \<open>
  A whole number of milliseconds whose product with 30 is at most \<open>2^53\<close>: product and
  quotient are computed without an error that the ceiling could see.
\<close>

lemma frames_exact:
  assumes "0 < d" and "d * 30 \<le> 2 ^ 53"
  shows "Math_ceil (js_div (js_mul (Num (of_int d)) FPS) (Num 1000))
           = Num (of_int \<lceil>real_of_int d * 30 / 1000\<rceil>)"
proof -
  from assms(1) have p: "0 \<le> d * 30" "0 < d * 30" by simp_all
  have m: "js_mul (Num (of_int d)) FPS = Num (of_int (d * 30))"
    using round64_int [OF p(1) assms(2)] by (simp add: FPS_def)
  from round64_div1000 [OF p(2) assms(2)] obtain y
    where y: "round64 (real_of_int (d * 30) / 1000) = Num y"
      and c: "\<lceil>y\<rceil> = \<lceil>real_of_int (d * 30) / 1000\<rceil>" by blast
  have "js_div (Num (of_int (d * 30))) (Num 1000) = Num y"
    using y by simp
  with m c show ?thesis by simp
qed

text \<open>A duration of one millisecond or more gives at least one frame.\<close>

lemma tiny_le: "(2::real) powi (- 1022) \<le> 1 / 1000"
proof -
  have "(2::real) powi (- 1022) \<le> 2 powi (- 10)"
    by (intro power_int_increasing) simp_all
  also have "\<dots> \<le> 1 / 1000" by (simp add: power_int_minus)
  finally show ?thesis .
qed

lemma frames_at_least_one:
  assumes "1 \<le> x"
  shows "Math_ceil (js_div (js_mul (Num x) FPS) (Num 1000)) = PosInf
         \<or> (\<exists>n. Math_ceil (js_div (js_mul (Num x) FPS) (Num 1000)) = Num (of_int n) \<and> 1 \<le> n)"
proof -
  from assms have "1 \<le> x * 30" by simp
  from round64_ge_one [OF this] show ?thesis
  proof
    assume "round64 (x * 30) = PosInf"
    then show ?thesis by (simp add: FPS_def signed_inf_def)
  next
    assume "\<exists>y. round64 (x * 30) = Num y \<and> 1 \<le> y"
    then obtain y where y: "round64 (x * 30) = Num y" "1 \<le> y" by blast
    then have q: "1 / 1000 \<le> y / 1000" by simp
    with tiny_le have "2 powi (- 1022) \<le> \<bar>y / 1000\<bar>" by simp
    from binade_lower [OF this] q have "2 powi binade (y / 1000) \<le> y / 1000" by simp
    from round64_ge_pow [OF this] show ?thesis
    proof
      assume "round64 (y / 1000) = PosInf"
      with y show ?thesis by (simp add: FPS_def)
    next
      assume "\<exists>z. round64 (y / 1000) = Num z \<and> 2 powi binade (y / 1000) \<le> z"
      then obtain z where z: "round64 (y / 1000) = Num z" "2 powi binade (y / 1000) \<le> z"
        by blast
      from z(2) grid_pos [of "binade (y / 1000)"] have "0 < z" by linarith
      then have "1 \<le> \<lceil>z\<rceil>" by simp
      with y z show ?thesis by (simp add: FPS_def)
    qed
  qed
qed

lemma ceiling_sum_lower: "\<lceil>sum_list xs\<rceil> \<le> sum_list (map ceiling (xs :: real list))"
proof (induction xs)
  case Nil
  show ?case by simp
next
  case (Cons x xs)
  have "\<lceil>x + sum_list xs\<rceil> \<le> \<lceil>x\<rceil> + \<lceil>sum_list xs\<rceil>" by (rule ceiling_add_le)
  with Cons show ?case by simp
qed

lemma ceiling_sum_upper_real:
  "real_of_int (sum_list (map ceiling (xs :: real list))) \<le> sum_list xs + real (length xs)
   \<and> (xs \<noteq> [] \<longrightarrow> real_of_int (sum_list (map ceiling xs)) < sum_list xs + real (length xs))"
proof (induction xs)
  case Nil
  show ?case by simp
next
  case (Cons x xs)
  have "real_of_int \<lceil>x\<rceil> < x + 1" by linarith
  with Cons show ?case by simp
qed

lemma ceiling_sum_upper:
  assumes "xs \<noteq> []"
  shows "sum_list (map ceiling (xs :: real list)) < \<lceil>sum_list xs\<rceil> + int (length xs)"
proof -
  have "real_of_int (sum_list (map ceiling xs)) < sum_list xs + real (length xs)"
    using ceiling_sum_upper_real [of xs] assms by simp
  also have "\<dots> \<le> real_of_int \<lceil>sum_list xs\<rceil> + real (length xs)"
    by simp
  finally have "real_of_int (sum_list (map ceiling xs)) < real_of_int (\<lceil>sum_list xs\<rceil> + int (length xs))"
    by simp
  then show ?thesis by (simp only: of_int_less_iff)
qed

lemma total_as_sum:
  "real_of_int (sum_list ds) * 30 / 1000 = sum_list (map (\<lambda>d. real_of_int d * 30 / 1000) ds)"
  by (induction ds) (simp_all add: algebra_simps add_divide_distrib)

text \<open>
  Whole durations that are positive and add up to at most \<open>2^53\<close>: the running sum of
  \<open>reduce\<close> is exact.
\<close>

lemma foldl_duration:
  assumes "map duration ss = map (\<lambda>d. Num (of_int d)) ds"
    and "\<And>d. d \<in> set ds \<Longrightarrow> 0 \<le> d" and "0 \<le> a" and "a + sum_list ds \<le> 2 ^ 53"
  shows "foldl (\<lambda>sum s. js_add sum (duration s)) (Num (of_int a)) ss
           = Num (of_int (a + sum_list ds))"
  using assms
proof (induction ss arbitrary: a ds)
  case Nil
  then show ?case by simp
next
  case (Cons s ss)
  from Cons.prems(1) obtain d ds' where ds: "ds = d # ds'" and d: "duration s = Num (of_int d)"
    and r: "map duration ss = map (\<lambda>d. Num (of_int d)) ds'"
    by (cases ds) auto
  from Cons.prems(2) ds have nn: "0 \<le> d" "\<And>d. d \<in> set ds' \<Longrightarrow> 0 \<le> d" by simp_all
  then have "0 \<le> sum_list ds'" by (simp add: sum_list_nonneg)
  with Cons.prems(3,4) nn(1) ds have b: "0 \<le> a + d" "a + d \<le> 2 ^ 53" by simp_all
  have "js_add (Num (of_int a)) (Num (of_int d)) = round64 (of_int (a + d))" by simp
  also have "\<dots> = Num (of_int (a + d))" using b by (rule round64_int)
  finally have step: "js_add (Num (of_int a)) (duration s) = Num (of_int (a + d))"
    by (simp only: d)
  from Cons.prems(4) ds have "(a + d) + sum_list ds' \<le> 2 ^ 53" by simp
  from Cons.IH [OF r nn(2) b(1) this] step ds show ?case by (simp add: add.assoc)
qed

lemma frames_of_whole:
  assumes "map duration ss = map (\<lambda>d. Num (of_int d)) ds"
    and "\<And>d. d \<in> set ds \<Longrightarrow> 0 < d \<and> d * 30 \<le> 2 ^ 53"
  shows "map durationInFrames (buildScenes i cf ss ras)
           = map (\<lambda>n. Num (of_int n)) (map (\<lambda>d. \<lceil>real_of_int d * 30 / 1000\<rceil>) ds)"
  using assms
proof (induction ss arbitrary: i cf ds)
  case Nil
  then show ?case by simp
next
  case (Cons s ss)
  from Cons.prems(1) obtain d ds' where ds: "ds = d # ds'" and d: "duration s = Num (of_int d)"
    and r: "map duration ss = map (\<lambda>d. Num (of_int d)) ds'"
    by (cases ds) auto
  from Cons.prems(2) ds have b: "0 < d" "d * 30 \<le> 2 ^ 53"
    and b': "\<And>d. d \<in> set ds' \<Longrightarrow> 0 < d \<and> d * 30 \<le> 2 ^ 53" by simp_all
  from Cons.IH [OF r b'] frames_exact [OF b] d ds show ?case
    by (simp add: Let_def)
qed

text \<open>What the source computes for the long durations of the examples.\<close>

lemma frames_long:
  "Math_ceil (js_div (js_mul (Num 9007199254740767) FPS) (Num 1000)) = Num 270215977642223"
  by (simp add: FPS_def f_simps)

lemma frames_least_positive:
  "Math_ceil (js_div (js_mul (Num least_positive) FPS) (Num 1000)) = Num 0"
  by (simp add: FPS_def least_positive_def f_simps)

lemma frames_two_long_first:
  "Math_ceil (js_div (js_mul (Num 3148396451011900) FPS) (Num 1000)) = Num 94451893530357"
  by (simp add: FPS_def f_simps)

lemma frames_two_long_second:
  "Math_ceil (js_div (js_mul (Num 514200) FPS) (Num 1000)) = Num 15426"
  by (simp add: FPS_def f_simps)

lemma frames_two_long_total:
  "Math_ceil (js_div (js_mul (Num 3148396451526100) FPS) (Num 1000)) = Num 94451893545784"
  by (simp add: FPS_def f_simps)

lemma sum_long_and_short:
  "js_add (Num 9007199254740767) (Num 1000) = Num 9007199254741768"
  by (simp add: f_simps)

lemma frames_short: "Math_ceil (js_div (js_mul (Num 1000) FPS) (Num 1000)) = Num 30"
  by (simp add: FPS_def round64_numeral)

lemma frames_long_and_short_total:
  "Math_ceil (js_div (js_mul (Num 9007199254741768) FPS) (Num 1000)) = Num 270215977642254"
  by (simp add: FPS_def f_simps)

section \<open>The timeline of the plan\<close>

text \<open>
  C1. For a validated request, \<open>buildRenderPlan\<close> returns a plan whose scenes are
  contiguous and gapless: the first scene starts at frame 0, every later scene starts where
  the one before it ends (the sum being the one the source computes), and start frames
  never decrease.
\<close>

theorem plan_contiguous:
  assumes "validateRequest request = Inr validated"
  shows "\<exists>plan. buildRenderPlan validated audio ras = Inr plan
           \<and> plan_scenes plan \<noteq> []
           \<and> startFrame (plan_scenes plan ! 0) = Num 0
           \<and> (\<forall>i. Suc i < length (plan_scenes plan) \<longrightarrow>
                 startFrame (plan_scenes plan ! Suc i)
                   = js_add (startFrame (plan_scenes plan ! i))
                            (durationInFrames (plan_scenes plan ! i))
                 \<and> js_le (startFrame (plan_scenes plan ! i))
                         (startFrame (plan_scenes plan ! Suc i)))"
proof -
  have ne: "scenes validated \<noteq> []"
    using validateRequest_Inr(1) [OF assms] .
  have pos: "\<And>s. s \<in> set (scenes validated) \<Longrightarrow> js_gt (duration s) (Num 0)"
    using validateRequest_Inr(2) [OF assms] .
  let ?bs = "buildScenes 0 (Num 0) (scenes validated) ras"
  from buildRenderPlan_validated [OF assms] obtain plan
    where p: "buildRenderPlan validated audio ras = Inr plan" and ps: "plan_scenes plan = ?bs"
    by fastforce
  have len: "length ?bs = length (scenes validated)" by (rule length_buildScenes)
  have A: "?bs \<noteq> []" using ne len by auto
  have B: "startFrame (?bs ! 0) = Num 0" using ne by (rule buildScenes_first)
  have C: "startFrame (?bs ! Suc i) = js_add (startFrame (?bs ! i)) (durationInFrames (?bs ! i))
                 \<and> js_le (startFrame (?bs ! i)) (startFrame (?bs ! Suc i))"
    if "Suc i < length ?bs" for i
  proof -
    from that len have i: "Suc i < length (scenes validated)" "i < length (scenes validated)"
      by simp_all
    have n: "startFrame (?bs ! Suc i) = js_add (startFrame (?bs ! i)) (durationInFrames (?bs ! i))"
      by (rule buildScenes_next [OF i(1)])
    have "js_gt (duration (scenes validated ! i)) (Num 0)"
      using pos i(2) by simp
    then have d: "frame_count (durationInFrames (?bs ! i))"
      unfolding buildScenes_duration [OF i(2)] by (rule frames_frame_count)
    have s: "frame_count (startFrame (?bs ! i))"
      using frame_count_0 pos i(2) by (rule buildScenes_frame_count)
    from frame_count_add(2) [OF s d] n show ?thesis by simp
  qed
  from p A B C show ?thesis
    unfolding ps [symmetric] by blast
qed

theorem plan_contiguous_witness:
  "validateRequest (received example_request) = Inr example_request
   \<and> startFrame (plan_scenes (projr (buildRenderPlan example_request [] [])) ! 0) = Num 0
   \<and> startFrame (plan_scenes (projr (buildRenderPlan example_request [] [])) ! 1)
       = js_add (startFrame (plan_scenes (projr (buildRenderPlan example_request [] [])) ! 0))
           (durationInFrames (plan_scenes (projr (buildRenderPlan example_request [] [])) ! 0))
   \<and> js_le (startFrame (plan_scenes (projr (buildRenderPlan example_request [] [])) ! 0))
           (startFrame (plan_scenes (projr (buildRenderPlan example_request [] [])) ! 1))
   \<and> startFrame (plan_scenes (projr (buildRenderPlan example_request [] [])) ! 1) = Num 30"
proof -
  from plan_contiguous [OF example_request_valid, of "[]" "[]"] obtain plan
    where p: "buildRenderPlan example_request [] [] = Inr plan"
      and z: "startFrame (plan_scenes plan ! 0) = Num 0"
      and s: "\<forall>i. Suc i < length (plan_scenes plan) \<longrightarrow>
                 startFrame (plan_scenes plan ! Suc i)
                   = js_add (startFrame (plan_scenes plan ! i))
                            (durationInFrames (plan_scenes plan ! i))
                 \<and> js_le (startFrame (plan_scenes plan ! i))
                         (startFrame (plan_scenes plan ! Suc i))"
    by blast
  have e: "buildRenderPlan example_request [] [] = Inr plan \<Longrightarrow>
        length (plan_scenes plan) = 2 \<and> durationInFrames (plan_scenes plan ! 0) = Num 30"
    by (auto simp: buildRenderPlan_def example_request_def eval_simps FPS_def)
  from e [OF p] have "Suc 0 < length (plan_scenes plan)" by simp
  note n = s [rule_format, OF this, unfolded One_nat_def [symmetric]]
  note n1 = n [THEN conjunct1] and n2 = n [THEN conjunct2]
  have v: "startFrame (plan_scenes plan ! 1) = Num 30"
    unfolding n1 using z e [OF p] by (simp add: round64_numeral)
  have r: "projr (buildRenderPlan example_request [] []) = plan"
    using p by simp
  show ?thesis
    unfolding r using example_request_valid z n1 n2 v by blast
qed

text \<open>
  C2, as the source has it. For a validated request, every scene whose duration is a whole
  number \<open>d\<close> of milliseconds with \<open>d * 30 \<le> 2^53\<close> gets
  \<open>durationInFrames = ceil(d * 30 / 1000)\<close>, the least integer \<open>n\<close> with
  \<open>d * 30 \<le> 1000 * n\<close>, and this is at least 1; every scene with a duration of one
  millisecond or more, whole or not, gets at least one frame.
\<close>

theorem plan_frames_ceiling:
  assumes "validateRequest request = Inr validated"
  shows "\<exists>plan. buildRenderPlan validated audio ras = Inr plan
           \<and> length (plan_scenes plan) = length (scenes validated)
           \<and> (\<forall>i < length (scenes validated). \<forall>d.
                 duration (scenes validated ! i) = Num (of_int d) \<and> d * 30 \<le> 2 ^ 53 \<longrightarrow>
                   durationInFrames (plan_scenes plan ! i)
                     = Num (of_int \<lceil>real_of_int d * 30 / 1000\<rceil>)
                   \<and> 1000 * (\<lceil>real_of_int d * 30 / 1000\<rceil> - 1) < d * 30
                   \<and> d * 30 \<le> 1000 * \<lceil>real_of_int d * 30 / 1000\<rceil>
                   \<and> 1 \<le> \<lceil>real_of_int d * 30 / 1000\<rceil>)
           \<and> (\<forall>i < length (scenes validated). \<forall>x.
                 duration (scenes validated ! i) = Num x \<and> 1 \<le> x \<longrightarrow>
                   durationInFrames (plan_scenes plan ! i) = PosInf
                   \<or> (\<exists>n. durationInFrames (plan_scenes plan ! i) = Num (of_int n) \<and> 1 \<le> n))"
proof -
  let ?bs = "buildScenes 0 (Num 0) (scenes validated) ras"
  from buildRenderPlan_validated [OF assms] obtain plan
    where p: "buildRenderPlan validated audio ras = Inr plan" and ps: "plan_scenes plan = ?bs"
    by fastforce
  have A: "length ?bs = length (scenes validated)" by (rule length_buildScenes)
  have B: "durationInFrames (?bs ! i) = Num (of_int \<lceil>real_of_int d * 30 / 1000\<rceil>)
           \<and> 1000 * (\<lceil>real_of_int d * 30 / 1000\<rceil> - 1) < d * 30
           \<and> d * 30 \<le> 1000 * \<lceil>real_of_int d * 30 / 1000\<rceil>
           \<and> 1 \<le> \<lceil>real_of_int d * 30 / 1000\<rceil>"
    if i: "i < length (scenes validated)"
      and d: "duration (scenes validated ! i) = Num (of_int d) \<and> d * 30 \<le> 2 ^ 53" for i d
  proof -
    have "js_gt (duration (scenes validated ! i)) (Num 0)"
      using validateRequest_Inr(2) [OF assms] i by simp
    with d have pos: "0 < d" by (simp add: js_gt_def)
    have "durationInFrames (?bs ! i) = Num (of_int \<lceil>real_of_int d * 30 / 1000\<rceil>)"
      unfolding buildScenes_duration [OF i] using d frames_exact [OF pos] by simp
    moreover have "1000 * (\<lceil>real_of_int d * 30 / 1000\<rceil> - 1) < d * 30
        \<and> d * 30 \<le> 1000 * \<lceil>real_of_int d * 30 / 1000\<rceil>"
      using frames_ceiling [of d "\<lceil>real_of_int d * 30 / 1000\<rceil>"] by blast
    moreover note frames_positive [OF pos]
    ultimately show ?thesis by blast
  qed
  have C: "durationInFrames (?bs ! i) = PosInf
           \<or> (\<exists>n. durationInFrames (?bs ! i) = Num (of_int n) \<and> 1 \<le> n)"
    if i: "i < length (scenes validated)"
      and x: "duration (scenes validated ! i) = Num x \<and> 1 \<le> x" for i x
    unfolding buildScenes_duration [OF i] using x frames_at_least_one [of x] by simp
  from p A B C show ?thesis
    unfolding ps [symmetric] by blast
qed

theorem plan_frames_ceiling_witness:
  "validateRequest (received short_request) = Inr short_request
   \<and> duration (scenes short_request ! 0) = Num 1
   \<and> duration (scenes short_request ! 1) = Num 34
   \<and> durationInFrames (plan_scenes (projr (buildRenderPlan short_request [] [])) ! 0) = Num 1
   \<and> durationInFrames (plan_scenes (projr (buildRenderPlan short_request [] [])) ! 1) = Num 2"
proof -
  from plan_frames_ceiling [OF short_request_valid, of "[]" "[]"] obtain plan
    where p: "buildRenderPlan short_request [] [] = Inr plan"
      and s: "\<forall>i < length (scenes short_request). \<forall>d.
                 duration (scenes short_request ! i) = Num (of_int d) \<and> d * 30 \<le> 2 ^ 53 \<longrightarrow>
                   durationInFrames (plan_scenes plan ! i)
                     = Num (of_int \<lceil>real_of_int d * 30 / 1000\<rceil>)
                   \<and> 1000 * (\<lceil>real_of_int d * 30 / 1000\<rceil> - 1) < d * 30
                   \<and> d * 30 \<le> 1000 * \<lceil>real_of_int d * 30 / 1000\<rceil>
                   \<and> 1 \<le> \<lceil>real_of_int d * 30 / 1000\<rceil>"
    by blast
  have l: "0 < length (scenes short_request)" "1 < length (scenes short_request)"
    and d0: "duration (scenes short_request ! 0) = Num (of_int 1) \<and> (1::int) * 30 \<le> 2 ^ 53"
    and d1: "duration (scenes short_request ! 1) = Num (of_int 34) \<and> (34::int) * 30 \<le> 2 ^ 53"
    by (simp_all add: short_request_def)
  have c: "\<lceil>real_of_int 1 * 30 / 1000\<rceil> = 1" "\<lceil>real_of_int 34 * 30 / 1000\<rceil> = 2"
    by (simp_all add: frames_ceiling)
  from s [rule_format, OF l(1) d0] c(1)
  have f0: "durationInFrames (plan_scenes plan ! 0) = Num 1" by simp
  from s [rule_format, OF l(2) d1] c(2)
  have f1: "durationInFrames (plan_scenes plan ! 1) = Num 2" by simp
  have r: "projr (buildRenderPlan short_request [] []) = plan"
    using p by simp
  from d0 d1 have "duration (scenes short_request ! 0) = Num 1"
    "duration (scenes short_request ! 1) = Num 34" by simp_all
  with short_request_valid f0 f1 show ?thesis
    unfolding r by blast
qed

text \<open>
  C2 as stated fails: the ceiling of the exact quotient is not what every scene gets, and
  a positive duration can give a scene of no frames. A validated scene of
  9007199254740767 ms gets 270215977642223 frames, one fewer than
  \<open>ceil(9007199254740767 * 30 / 1000)\<close>, and a validated scene of the least positive
  duration, \<open>5e-324\<close> ms, gets no frame at all.
\<close>

theorem plan_frames_not_ceiling:
  "validateRequest (received long_request) = Inr long_request
   \<and> map duration (scenes long_request) = [Num 9007199254740767]
   \<and> map durationInFrames (plan_scenes (projr (buildRenderPlan long_request [] [])))
       = [Num 270215977642223]
   \<and> \<lceil>(9007199254740767::real) * 30 / 1000\<rceil> = 270215977642224
   \<and> validateRequest (received tiny_request) = Inr tiny_request
   \<and> map duration (scenes tiny_request) = [Num least_positive]
   \<and> js_gt (Num least_positive) (Num 0)
   \<and> map durationInFrames (plan_scenes (projr (buildRenderPlan tiny_request [] [])))
       = [Num 0]"
proof -
  have a: "map duration (scenes long_request) = [Num 9007199254740767]"
    "map duration (scenes tiny_request) = [Num least_positive]"
    by (simp_all add: long_request_def tiny_request_def one_scene_request_def)
  have b: "map durationInFrames (plan_scenes (projr (buildRenderPlan long_request [] [])))
       = [Num 270215977642223]"
    by (simp add: long_request_def one_scene_request_def short_request_def buildRenderPlan_def
        eval_simps frames_long)
  have c: "\<lceil>(9007199254740767::real) * 30 / 1000\<rceil> = 270215977642224"
    using frames_ceiling [of 9007199254740767 270215977642224] by simp
  have d: "map durationInFrames (plan_scenes (projr (buildRenderPlan tiny_request [] [])))
       = [Num 0]"
    by (simp add: tiny_request_def one_scene_request_def short_request_def buildRenderPlan_def
        eval_simps frames_least_positive)
  have e: "js_gt (Num least_positive) (Num 0)"
    by (simp add: js_gt_def least_positive_pos)
  from long_request_valid tiny_request_valid a b c d e show ?thesis by blast
qed

text \<open>
  C8, as the source has it. For a validated request whose durations are whole numbers of
  milliseconds with \<open>totalDurationMs * 30 \<le> 2^53\<close>, the \<open>totalFrames\<close> of the source
  is \<open>ceil(totalDurationMs * 30 / 1000)\<close>, every scene gets
  \<open>ceil(durationMs * 30 / 1000)\<close> frames, and these add up to at least \<open>totalFrames\<close>
  and exceed it by fewer frames than there are scenes.
\<close>

theorem plan_frames_total:
  assumes "validateRequest request = Inr validated"
    and "map duration (scenes validated) = map (\<lambda>d. Num (of_int d)) ds"
    and "sum_list ds * 30 \<le> 2 ^ 53"
  shows "\<exists>plan. buildRenderPlan validated audio ras = Inr plan
           \<and> totalDurationMs validated = Num (of_int (sum_list ds))
           \<and> totalFrames validated = Num (of_int \<lceil>real_of_int (sum_list ds) * 30 / 1000\<rceil>)
           \<and> map durationInFrames (plan_scenes plan)
               = map (\<lambda>d. Num (of_int \<lceil>real_of_int d * 30 / 1000\<rceil>)) ds
           \<and> \<lceil>real_of_int (sum_list ds) * 30 / 1000\<rceil>
               \<le> sum_list (map (\<lambda>d. \<lceil>real_of_int d * 30 / 1000\<rceil>) ds)
           \<and> sum_list (map (\<lambda>d. \<lceil>real_of_int d * 30 / 1000\<rceil>) ds)
               < \<lceil>real_of_int (sum_list ds) * 30 / 1000\<rceil> + int (length (scenes validated))"
proof -
  let ?ss = "scenes validated"
  let ?bs = "buildScenes 0 (Num 0) ?ss ras"
  let ?xs = "map (\<lambda>d. real_of_int d * 30 / 1000) ds"
  let ?ns = "map (\<lambda>d. \<lceil>real_of_int d * 30 / 1000\<rceil>) ds"
  let ?total = "\<lceil>real_of_int (sum_list ds) * 30 / 1000\<rceil>"
  from buildRenderPlan_validated [OF assms(1)] obtain plan
    where p: "buildRenderPlan validated audio ras = Inr plan" and ps: "plan_scenes plan = ?bs"
    by fastforce
  have len: "length ds = length ?ss"
    using arg_cong [OF assms(2), of length] by simp
  have ne: "ds \<noteq> []"
    using validateRequest_Inr(1) [OF assms(1)] len by auto
  have pos: "0 < d" if "d \<in> set ds" for d
  proof -
    from that obtain k where k: "k < length ds" "ds ! k = d" by (auto simp: in_set_conv_nth)
    with len have "?ss ! k \<in> set ?ss" by simp
    then have "js_gt (duration (?ss ! k)) (Num 0)"
      by (rule validateRequest_Inr(2) [OF assms(1)])
    moreover have "duration (?ss ! k) = Num (of_int d)"
      using arg_cong [OF assms(2), of "\<lambda>l. l ! k"] k len by simp
    ultimately show ?thesis by (simp add: js_gt_def)
  qed
  have nn: "0 \<le> d" if "d \<in> set ds" for d using pos [OF that] by simp
  have le: "d \<le> sum_list ds" if "d \<in> set ds" for d
    using nn that by (intro member_le_sum_list) simp_all
  have S: "0 < sum_list ds"
  proof -
    from ne obtain d where d: "d \<in> set ds" by (cases ds) auto
    from pos [OF d] le [OF d] show ?thesis by simp
  qed
  from S assms(3) have S53: "0 + sum_list ds \<le> 2 ^ 53" by simp
  have T: "totalDurationMs validated = Num (of_int (sum_list ds))"
    unfolding totalDurationMs_def
    using foldl_duration [OF assms(2) nn _ S53] by simp
  have F: "totalFrames validated = Num (of_int ?total)"
    unfolding totalFrames_def T by (rule frames_exact [OF S assms(3)])
  have small: "0 < d \<and> d * 30 \<le> 2 ^ 53" if "d \<in> set ds" for d
    using pos [OF that] le [OF that] assms(3) by simp
  have "map durationInFrames (plan_scenes plan) = map (\<lambda>n. Num (of_int n)) ?ns"
    unfolding ps using assms(2) small by (rule frames_of_whole)
  then have D: "map durationInFrames (plan_scenes plan)
      = map (\<lambda>d. Num (of_int \<lceil>real_of_int d * 30 / 1000\<rceil>)) ds"
    by (simp add: comp_def)
  have xs: "?xs \<noteq> []" using ne by simp
  have t: "?total = \<lceil>sum_list ?xs\<rceil>" by (simp only: total_as_sum)
  have n: "?ns = map ceiling ?xs" by (simp add: comp_def)
  from ceiling_sum_upper [OF xs]
  have "sum_list (map ceiling ?xs) < \<lceil>sum_list ?xs\<rceil> + int (length ?ss)"
    using len by simp
  with ceiling_sum_lower [of ?xs]
  have B: "?total \<le> sum_list ?ns \<and> sum_list ?ns < ?total + int (length ?ss)"
    unfolding t n by simp
  from p T F D B show ?thesis by blast
qed

theorem plan_frames_total_witness:
  "validateRequest (received short_request) = Inr short_request
   \<and> map duration (scenes short_request) = [Num 1, Num 34, Num 1]
   \<and> totalDurationMs short_request = Num 36
   \<and> totalFrames short_request = Num 2
   \<and> map durationInFrames (plan_scenes (projr (buildRenderPlan short_request [] [])))
       = [Num 1, Num 2, Num 1]
   \<and> (2::int) \<le> 1 + 2 + 1 \<and> (1::int) + 2 + 1 < 2 + 3"
proof -
  have d: "map duration (scenes short_request) = map (\<lambda>d. Num (of_int d)) [1, 34, 1]"
    by (simp add: short_request_def)
  have s: "sum_list [1, 34, 1] * 30 \<le> (2::int) ^ 53" by simp
  from plan_frames_total [OF short_request_valid d s, of "[]" "[]"] obtain plan
    where p: "buildRenderPlan short_request [] [] = Inr plan"
      and m: "totalDurationMs short_request = Num (of_int (sum_list [1, 34, 1]))"
      and t: "totalFrames short_request
                = Num (of_int \<lceil>real_of_int (sum_list [1, 34, 1]) * 30 / 1000\<rceil>)"
      and f: "map durationInFrames (plan_scenes plan)
                = map (\<lambda>d. Num (of_int \<lceil>real_of_int d * 30 / 1000\<rceil>)) [1, 34, 1]"
    by blast
  have c: "\<lceil>real_of_int 36 * 30 / 1000\<rceil> = 2" "\<lceil>real_of_int 1 * 30 / 1000\<rceil> = 1"
    "\<lceil>real_of_int 34 * 30 / 1000\<rceil> = 2"
    by (simp_all add: frames_ceiling)
  have r: "projr (buildRenderPlan short_request [] []) = plan"
    using p by simp
  have m': "totalDurationMs short_request = Num 36" using m by simp
  have t': "totalFrames short_request = Num 2" using t c(1) by simp
  have f': "map durationInFrames (plan_scenes plan) = [Num 1, Num 2, Num 1]"
    using f c(2,3) by simp
  have d': "map duration (scenes short_request) = [Num 1, Num 34, Num 1]"
    using d by simp
  show ?thesis
    unfolding r using short_request_valid d' m' t' f' by simp
qed

text \<open>
  C8 as stated fails: the frames of the scenes can add up to less than
  \<open>ceil(totalDurationMs * 30 / 1000)\<close>. For validated scenes of 3148396451011900 ms and
  514200 ms the source computes \<open>totalFrames\<close> as 94451893545784, and the scenes get
  94451893530357 and 15426 frames, which add up, in the arithmetic of the source as well
  as exactly, to 94451893545783. For validated scenes of 9007199254740767 ms and 1000 ms
  the scenes get 270215977642223 and 30 frames, which add up to 270215977642253, while
  the ceiling of the exact quotient is 270215977642254, and so is the \<open>totalFrames\<close> of
  the source.
\<close>

theorem plan_frames_total_below:
  "validateRequest (received two_long_request) = Inr two_long_request
   \<and> map duration (scenes two_long_request) = [Num 3148396451011900, Num 514200]
   \<and> totalDurationMs two_long_request = Num 3148396451526100
   \<and> totalFrames two_long_request = Num 94451893545784
   \<and> map durationInFrames (plan_scenes (projr (buildRenderPlan two_long_request [] [])))
       = [Num 94451893530357, Num 15426]
   \<and> js_add (Num 94451893530357) (Num 15426) = Num 94451893545783
   \<and> (94451893530357::int) + 15426 = 94451893545783
   \<and> js_less (Num 94451893545783) (totalFrames two_long_request)
   \<and> validateRequest (received long_and_short_request) = Inr long_and_short_request
   \<and> map duration (scenes long_and_short_request) = [Num 9007199254740767, Num 1000]
   \<and> totalDurationMs long_and_short_request = Num 9007199254741768
   \<and> totalFrames long_and_short_request = Num 270215977642254
   \<and> \<lceil>((9007199254740767::real) + 1000) * 30 / 1000\<rceil> = 270215977642254
   \<and> map durationInFrames (plan_scenes (projr (buildRenderPlan long_and_short_request [] [])))
       = [Num 270215977642223, Num 30]
   \<and> js_add (Num 270215977642223) (Num 30) = Num 270215977642253
   \<and> (270215977642223::int) + 30 = 270215977642253
   \<and> js_less (Num 270215977642253) (totalFrames long_and_short_request)"
proof -
  have a: "map duration (scenes two_long_request) = [Num 3148396451011900, Num 514200]"
    by (simp add: two_long_request_def)
  have b: "totalDurationMs two_long_request = Num 3148396451526100"
    by (simp add: totalDurationMs_def two_long_request_def round64_numeral)
  have c: "totalFrames two_long_request = Num 94451893545784"
    unfolding totalFrames_def b by (rule frames_two_long_total)
  have d: "map durationInFrames (plan_scenes (projr (buildRenderPlan two_long_request [] [])))
       = [Num 94451893530357, Num 15426]"
    by (simp add: two_long_request_def short_request_def buildRenderPlan_def
        eval_simps frames_two_long_first frames_two_long_second)
  have e: "js_add (Num 94451893530357) (Num 15426) = Num 94451893545783"
    by (simp add: round64_numeral)
  have f: "js_less (Num 94451893545783) (totalFrames two_long_request)"
    unfolding c by simp
  have a': "map duration (scenes long_and_short_request) = [Num 9007199254740767, Num 1000]"
    by (simp add: long_and_short_request_def)
  have b': "totalDurationMs long_and_short_request = Num 9007199254741768"
  proof -
    have "js_add (Num 0) (Num 9007199254740767) = Num 9007199254740767"
      by (simp add: round64_numeral)
    then show ?thesis
      unfolding totalDurationMs_def long_and_short_request_def
      by (simp add: sum_long_and_short del: js_add.simps)
  qed
  have c': "totalFrames long_and_short_request = Num 270215977642254"
    unfolding totalFrames_def b' by (rule frames_long_and_short_total)
  have x': "\<lceil>((9007199254740767::real) + 1000) * 30 / 1000\<rceil> = 270215977642254"
    using frames_ceiling [of 9007199254741767 270215977642254] by simp
  have d': "map durationInFrames
              (plan_scenes (projr (buildRenderPlan long_and_short_request [] [])))
       = [Num 270215977642223, Num 30]"
    by (simp add: long_and_short_request_def short_request_def buildRenderPlan_def
        eval_simps frames_long frames_short)
  have e': "js_add (Num 270215977642223) (Num 30) = Num 270215977642253"
    by (simp add: round64_numeral)
  have f': "js_less (Num 270215977642253) (totalFrames long_and_short_request)"
    unfolding c' by simp
  have A: "validateRequest (received two_long_request) = Inr two_long_request
   \<and> map duration (scenes two_long_request) = [Num 3148396451011900, Num 514200]
   \<and> totalDurationMs two_long_request = Num 3148396451526100
   \<and> totalFrames two_long_request = Num 94451893545784
   \<and> map durationInFrames (plan_scenes (projr (buildRenderPlan two_long_request [] [])))
       = [Num 94451893530357, Num 15426]
   \<and> js_add (Num 94451893530357) (Num 15426) = Num 94451893545783
   \<and> (94451893530357::int) + 15426 = 94451893545783
   \<and> js_less (Num 94451893545783) (totalFrames two_long_request)"
    using two_long_request_valid a b c d e f by simp
  have B: "validateRequest (received long_and_short_request) = Inr long_and_short_request
   \<and> map duration (scenes long_and_short_request) = [Num 9007199254740767, Num 1000]
   \<and> totalDurationMs long_and_short_request = Num 9007199254741768
   \<and> totalFrames long_and_short_request = Num 270215977642254
   \<and> \<lceil>((9007199254740767::real) + 1000) * 30 / 1000\<rceil> = 270215977642254
   \<and> map durationInFrames (plan_scenes (projr (buildRenderPlan long_and_short_request [] [])))
       = [Num 270215977642223, Num 30]
   \<and> js_add (Num 270215977642223) (Num 30) = Num 270215977642253
   \<and> (270215977642223::int) + 30 = 270215977642253
   \<and> js_less (Num 270215977642253) (totalFrames long_and_short_request)"
    using long_and_short_request_valid a' b' c' x' d' e' f' by simp
  from A B show ?thesis by blast
qed

text \<open>
  C9. For a validated request and any list of resolved assets, shorter than the scenes or
  not, \<open>buildRenderPlan\<close> returns a plan with one entry per scene; scene \<open>i\<close> is bound to
  the local path of asset \<open>i\<close> when there is one, and has no asset path when the list of
  assets ends before \<open>i\<close>.
\<close>

theorem plan_short_assets:
  assumes "validateRequest request = Inr validated"
  shows "\<exists>plan. buildRenderPlan validated audio ras = Inr plan
           \<and> length (plan_scenes plan) = length (scenes validated)
           \<and> (\<forall>i < length (scenes validated).
                 assetPath (plan_scenes plan ! i)
                   = (if i < length ras then localPath (ras ! i) else None))"
proof -
  let ?bs = "buildScenes 0 (Num 0) (scenes validated) ras"
  from buildRenderPlan_validated [OF assms] obtain plan
    where p: "buildRenderPlan validated audio ras = Inr plan" and ps: "plan_scenes plan = ?bs"
    by fastforce
  have A: "length ?bs = length (scenes validated)" by (rule length_buildScenes)
  have B: "assetPath (?bs ! i) = (if i < length ras then localPath (ras ! i) else None)"
    if "i < length (scenes validated)" for i
    using buildScenes_assetPath [OF that, of 0 "Num 0" ras] by simp
  from p A B show ?thesis
    unfolding ps [symmetric] by blast
qed

theorem plan_short_assets_witness:
  "validateRequest (received example_request) = Inr example_request
   \<and> length [\<lparr>resolved_searchTerms = js ''sea'', resolved_videoUrl = Some (js ''u''),
               localPath = Some (js ''/tmp/a.mp4'')\<rparr>] < length (scenes example_request)
   \<and> length (plan_scenes (projr (buildRenderPlan example_request []
        [\<lparr>resolved_searchTerms = js ''sea'', resolved_videoUrl = Some (js ''u''),
          localPath = Some (js ''/tmp/a.mp4'')\<rparr>]))) = 2
   \<and> assetPath (plan_scenes (projr (buildRenderPlan example_request []
        [\<lparr>resolved_searchTerms = js ''sea'', resolved_videoUrl = Some (js ''u''),
          localPath = Some (js ''/tmp/a.mp4'')\<rparr>])) ! 0) = Some (js ''/tmp/a.mp4'')
   \<and> assetPath (plan_scenes (projr (buildRenderPlan example_request []
        [\<lparr>resolved_searchTerms = js ''sea'', resolved_videoUrl = Some (js ''u''),
          localPath = Some (js ''/tmp/a.mp4'')\<rparr>])) ! 1) = None"
proof -
  let ?ras = "[\<lparr>resolved_searchTerms = js ''sea'', resolved_videoUrl = Some (js ''u''),
                localPath = Some (js ''/tmp/a.mp4'')\<rparr>]"
  from plan_short_assets [OF example_request_valid, of "[]" ?ras] obtain plan
    where p: "buildRenderPlan example_request [] ?ras = Inr plan"
      and l: "length (plan_scenes plan) = length (scenes example_request)"
      and s: "\<forall>i < length (scenes example_request).
                 assetPath (plan_scenes plan ! i)
                   = (if i < length ?ras then localPath (?ras ! i) else None)"
    by blast
  have n: "length (scenes example_request) = 2" by (simp add: example_request_def)
  from s n have "assetPath (plan_scenes plan ! 0) = Some (js ''/tmp/a.mp4'')"
    "assetPath (plan_scenes plan ! 1) = None"
    by simp_all
  with p l n example_request_valid show ?thesis by simp
qed

section \<open>Text sanitization\<close>

lemma isControl_unat: "isControl c \<longleftrightarrow> unicode_Cc (unat c)"
  by (simp add: isControl_def unicode_Cc_def word_le_nat_alt)

lemma surrogate_unat: "isSurrogate c \<longleftrightarrow> 0xD800 \<le> unat c \<and> unat c \<le> 0xDFFF"
  by (auto simp: isSurrogate_def isHighSurrogate_def isLowSurrogate_def word_le_nat_alt)

lemma surrogate_not_control: "isSurrogate c \<Longrightarrow> \<not> isControl c"
  by (auto simp: surrogate_unat isControl_unat unicode_Cc_def)

lemma unat_bmp: "unat (c :: 16 word) \<le> 0xFFFF"
  using unsigned_less [of c, where ?'a = nat] by simp

lemma codePoints_Cons:
  "\<not> isHighSurrogate h \<Longrightarrow> codePoints (h # cs) = unat h # codePoints cs"
  by (cases cs) simp_all

lemma set_removeAstral: "set (removeAstral cs) \<subseteq> set cs"
  by (induction cs rule: removeAstral.induct) auto

lemma removeAstral_keeps:
  "filter (\<lambda>c. \<not> isSurrogate c) (removeAstral cs) = filter (\<lambda>c. \<not> isSurrogate c) cs"
  by (induction cs rule: removeAstral.induct) (auto simp: isSurrogate_def)

lemma sanitize_no_control: "list_all (\<lambda>c. \<not> isControl c) (sanitizeText t)"
  using set_removeAstral [of "filter (\<lambda>c. \<not> isControl c) t"]
  by (auto simp: sanitizeText_def list_all_iff)

lemma sanitize_keeps_bmp:
  "filter (\<lambda>c. \<not> isSurrogate c) (sanitizeText t)
     = filter (\<lambda>c. \<not> isSurrogate c \<and> \<not> isControl c) t"
  by (simp add: sanitizeText_def removeAstral_keeps conj_commute)

lemma codePoints_filter_control:
  "wellFormed cs \<Longrightarrow>
   codePoints (filter (\<lambda>c. \<not> isControl c) cs) = filter (\<lambda>cp. \<not> unicode_Cc cp) (codePoints cs)"
proof (induction cs rule: codePoints.induct)
  case (1 h l rest)
  show ?case
  proof (cases "isHighSurrogate h \<and> isLowSurrogate l")
    case True
    then have nc: "\<not> isControl h" "\<not> isControl l"
      by (simp_all add: surrogate_not_control isSurrogate_def)
    from True 1 have "wellFormed rest" by (simp add: wellFormed_def)
    with 1 True nc show ?thesis by (simp add: unicode_Cc_def)
  next
    case False
    with 1 have wf: "wellFormed (l # rest)" and ns: "\<not> isSurrogate h"
      by (auto simp: wellFormed_def surrogate_unat)
    from ns have nh: "\<not> isHighSurrogate h" by (simp add: isSurrogate_def)
    from 1(2) [OF False wf] False nh show ?thesis
      by (simp add: codePoints_Cons isControl_unat del: codePoints.simps(1))
  qed
next
  case (2 c)
  then show ?case by (simp add: isControl_unat)
next
  case 3
  then show ?case by simp
qed

lemma codePoints_removeAstral:
  "wellFormed cs \<Longrightarrow> codePoints (removeAstral cs) = filter (\<lambda>cp. cp \<le> 0xFFFF) (codePoints cs)"
proof (induction cs rule: removeAstral.induct)
  case (1 h l rest)
  show ?case
  proof (cases "isHighSurrogate h \<and> isLowSurrogate l")
    case True
    from True 1 have "wellFormed rest" by (simp add: wellFormed_def)
    with 1 True show ?thesis by simp
  next
    case False
    with 1 have wf: "wellFormed (l # rest)" and ns: "\<not> isSurrogate h"
      by (auto simp: wellFormed_def surrogate_unat)
    from ns have nh: "\<not> isHighSurrogate h" by (simp add: isSurrogate_def)
    from 1(2) [OF False wf] False nh unat_bmp [of h] show ?thesis
      by (simp add: codePoints_Cons del: codePoints.simps(1))
  qed
qed (simp_all add: unat_bmp)

lemma wellFormed_filter_control:
  "wellFormed cs \<Longrightarrow> wellFormed (filter (\<lambda>c. \<not> isControl c) cs)"
  by (simp add: wellFormed_def codePoints_filter_control list_all_iff)

lemma codePoints_sanitizeText:
  assumes "wellFormed t"
  shows "codePoints (sanitizeText t)
           = filter (\<lambda>cp. \<not> unicode_Cc cp \<and> cp \<le> 0xFFFF) (codePoints t)"
proof -
  have "codePoints (sanitizeText t)
          = filter (\<lambda>cp. cp \<le> 0xFFFF) (codePoints (filter (\<lambda>c. \<not> isControl c) t))"
    unfolding sanitizeText_def
    by (rule codePoints_removeAstral [OF wellFormed_filter_control [OF assms]])
  also have "\<dots> = filter (\<lambda>cp. cp \<le> 0xFFFF) (filter (\<lambda>cp. \<not> unicode_Cc cp) (codePoints t))"
    by (simp only: codePoints_filter_control [OF assms])
  finally show ?thesis by (simp add: conj_commute)
qed

text \<open>
  C5, as the source has it. For every input string \<open>sanitizeText\<close> leaves no control
  character (\<open>U+0000\<close> to \<open>U+001F\<close>, \<open>U+007F\<close> to \<open>U+009F\<close>) and keeps, in their order,
  all code units that are neither control characters nor surrogates, format characters
  included. For a well-formed string the code points of the result are exactly the code
  points of the input that are not control characters and lie in the Basic Multilingual
  Plane. The example of the specification comes out as \<open>Hi  world\<close>.
\<close>

theorem sanitizeText_removes:
  "list_all (\<lambda>c. \<not> isControl c) (sanitizeText t)
   \<and> filter (\<lambda>c. \<not> isSurrogate c) (sanitizeText t)
       = filter (\<lambda>c. \<not> isSurrogate c \<and> \<not> isControl c) t
   \<and> (wellFormed t \<longrightarrow>
        codePoints (sanitizeText t)
          = filter (\<lambda>cp. \<not> unicode_Cc cp \<and> cp \<le> 0xFFFF) (codePoints t))
   \<and> sanitizeText example_text = js ''Hi  world''"
proof -
  have "sanitizeText example_text = js ''Hi  world''"
    by (simp add: example_text_def eval_simps)
  with sanitize_no_control [of t] sanitize_keeps_bmp [of t] codePoints_sanitizeText [of t]
  show ?thesis by blast
qed

theorem sanitizeText_removes_witness:
  "wellFormed example_text
   \<and> codePoints example_text
       = [0x48, 0x69, 0x07, 0x20, 0x1F600, 0x20, 0x77, 0x6F, 0x72, 0x6C, 0x64]
   \<and> codePoints (sanitizeText example_text)
       = [0x48, 0x69, 0x20, 0x20, 0x77, 0x6F, 0x72, 0x6C, 0x64]"
proof -
  have cp: "codePoints example_text
       = [0x48, 0x69, 0x07, 0x20, 0x1F600, 0x20, 0x77, 0x6F, 0x72, 0x6C, 0x64]"
    by (simp add: example_text_def eval_simps)
  then have wf: "wellFormed example_text"
    by (simp add: wellFormed_def)
  from sanitizeText_removes [of example_text] wf
  have "codePoints (sanitizeText example_text)
          = filter (\<lambda>cp. \<not> unicode_Cc cp \<and> cp \<le> 0xFFFF) (codePoints example_text)"
    by blast
  with cp wf show ?thesis by (simp add: unicode_Cc_def)
qed

text \<open>
  C5 as stated fails: \<open>U+200B\<close> (zero width space) is a format code point and stays.
\<close>

theorem sanitizeText_keeps_format:
  "unicode_Cf 0x200B \<and> sanitizeText [0x48, 0x200B, 0x69] = [0x48, 0x200B, 0x69]"
  by (simp add: unicode_Cf_def eval_simps)

section \<open>Validation of the resolution\<close>

lemma split_js_nonempty: "split_js sep s \<noteq> []"
  by (induction s) (auto split: list.splits)

lemma split_js_notin: "sep \<notin> set s \<Longrightarrow> split_js sep s = [s]"
  by (induction s) auto

lemma count_x_Cons:
  "count_x (c # cs) = (if c = 0x78 then Suc (count_x cs) else count_x cs)"
  by (simp add: count_x_def)

lemma count_x_0: "count_x r = 0 \<longleftrightarrow> 0x78 \<notin> set r"
  by (induction r) (auto simp: count_x_def)

lemma length_split_js: "length (split_js 0x78 r) = count_x r + 1"
proof (induction r)
  case Nil
  show ?case by (simp add: count_x_def)
next
  case (Cons c cs)
  then show ?case
    using split_js_nonempty [of "0x78" cs]
    by (cases "split_js 0x78 cs") (auto simp: count_x_Cons)
qed

lemma split_js_one_x:
  "count_x r = 1 \<Longrightarrow> split_js 0x78 r = [width_part r, height_part r]"
proof (induction r)
  case Nil
  then show ?case by (simp add: count_x_def)
next
  case (Cons c cs)
  show ?case
  proof (cases "c = 0x78")
    case True
    with Cons.prems have "count_x cs = 0" by (simp add: count_x_Cons)
    then have "0x78 \<notin> set cs" by (simp add: count_x_0)
    with True show ?thesis
      by (simp add: split_js_notin width_part_def height_part_def)
  next
    case False
    with Cons.prems have "count_x cs = 1" by (simp add: count_x_Cons)
    from Cons.IH [OF this] False show ?thesis
      by (simp add: width_part_def height_part_def)
  qed
qed

lemma digit_not_space: "isDigit c \<Longrightarrow> \<not> isWhiteSpace c"
  by (auto simp: isDigit_def isWhiteSpace_def word_le_nat_alt)

lemma digit_not_sign: "isDigit c \<Longrightarrow> c \<noteq> 0x2B \<and> c \<noteq> 0x2D"
  by (auto simp: isDigit_def)

lemma skip_white_eq: "skip_white s = dropWhile isWhiteSpace s"
  by (induction s) simp_all

lemma leading_digits_eq:
  "leading_digits acc cs
     = foldl (\<lambda>acc c. acc * 10 + (uint c - 48)) acc (takeWhile isDigit cs)"
  by (induction cs arbitrary: acc) simp_all

lemma round64_not_NaN: "round64 x \<noteq> NaN"
  by (simp add: round64_def Let_def)

text \<open>
  What \<open>parseInt(s, 10)\<close> gives, in terms of the string: \<open>NaN\<close> unless the string
  starts with a number, and else the number nearest to that number.
\<close>

lemma parseInt10_char:
  "parseInt10 s
     = (if starts_with_number s then round64 (of_int (leading_value s)) else NaN)"
proof (cases "dropWhile isWhiteSpace s")
  case Nil
  show ?thesis
    unfolding parseInt10_def skip_white_eq leading_value_def starts_with_number.simps Nil
    by simp
next
  case (Cons c cs)
  show ?thesis
  proof (cases "c = 0x2B \<or> c = 0x2D")
    case True
    then have nd: "\<not> isDigit c" using digit_not_sign [of c] by blast
    from True nd show ?thesis
      unfolding parseInt10_def skip_white_eq leading_value_def starts_with_number.simps Cons
      by (cases cs) (auto simp: leading_digits_eq digitsValue_def)
  next
    case False
    then show ?thesis
      unfolding parseInt10_def skip_white_eq leading_value_def starts_with_number.simps Cons
      by (cases cs) (auto simp: leading_digits_eq digitsValue_def)
  qed
qed

lemma js_gt_round64_int: "js_gt (round64 (of_int n)) (Num 0) \<longleftrightarrow> 0 < n"
proof
  assume g: "js_gt (round64 (of_int n)) (Num 0)"
  show "0 < n"
  proof (rule ccontr)
    assume "\<not> 0 < n"
    then have "real_of_int n \<le> 0" by simp
    from round64_nonpos [OF this] g show False
      by (auto simp: js_gt_def)
  qed
next
  assume "0 < n"
  then have "1 \<le> real_of_int n" by simp
  from round64_ge_one [OF this] show "js_gt (round64 (of_int n)) (Num 0)"
    by (auto simp: js_gt_def)
qed

text \<open>\<open>parseResolution\<close> in terms of the string.\<close>

lemma parseResolution_char:
  "parseResolution r =
     (if wrong_segment_count r then
        Inl (new_Error (js ''Invalid resolution format: '' @ r
                        @ js ''. Expected '' @ [0x22] @ js ''WxH'' @ [0x22]))
      else if segment_without_number r then
        Inl (new_Error (js ''Invalid resolution values: '' @ r))
      else Inr (round64 (of_int (leading_value (width_part r))),
                round64 (of_int (leading_value (height_part r)))))"
proof (cases "count_x r = 1")
  case False
  then have "length (split_js 0x78 r) \<noteq> 2" by (simp add: length_split_js)
  with False show ?thesis
    by (simp add: parseResolution_def wrong_segment_count_def)
next
  case True
  from split_js_one_x [OF True] True show ?thesis
    by (simp add: parseResolution_def wrong_segment_count_def segment_without_number_def
        parseInt10_char isNaN_def round64_not_NaN)
qed

lemma resolution_faults:
  "\<not> resolution_ok r
     \<longleftrightarrow> wrong_segment_count r \<or> segment_without_number r \<or> number_not_positive r"
  by (auto simp: resolution_ok_def wrong_segment_count_def segment_without_number_def
      number_not_positive_def)

text \<open>Every resolution of the form \<open><int>x<int>\<close> with positive numbers is without fault.\<close>

lemma positive_int_leading:
  assumes "isPositiveInt ds"
  shows "starts_with_number ds" and "leading_value ds = digitsValue ds"
proof -
  from assms obtain c cs where ds: "ds = c # cs" and c: "isDigit c"
    by (cases ds) (auto simp: isPositiveInt_def)
  from assms have "takeWhile isDigit ds = ds"
    by (simp add: isPositiveInt_def list_all_iff)
  then have d: "leading_digits 0 ds = digitsValue ds"
    by (simp only: leading_digits_eq digitsValue_def)
  from ds c digit_not_space [OF c] show "starts_with_number ds"
    by (cases cs) simp_all
  from ds c digit_not_space [OF c] digit_not_sign [OF c]
  have "leading_value ds = leading_digits 0 ds"
    by (simp add: leading_value_def)
  with d show "leading_value ds = digitsValue ds" by simp
qed

lemma strict_resolution_ok:
  assumes "strict_resolution r"
  shows "resolution_ok r"
proof -
  from assms obtain a b where s: "split_js 0x78 r = [a, b]"
    and a: "isPositiveInt a" and b: "isPositiveInt b"
    by (auto simp: strict_resolution_def split: list.splits)
  from s have c: "count_x r = 1"
    using length_split_js [of r] by simp
  from split_js_one_x [OF c] s have "width_part r = a" "height_part r = b" by simp_all
  with c positive_int_leading [OF a] positive_int_leading [OF b] a b show ?thesis
    by (simp add: resolution_ok_def isPositiveInt_def)
qed

text \<open>
  \<open>validateConfig\<close> on a configuration whose \<open>ttsUrl\<close> passes, in terms of the
  resolution string.
\<close>

lemma validateConfig_char:
  assumes "r_ttsUrl c = Is url" and "url \<noteq> []" and "r_resolution c = Is res"
  shows "validateConfig (Is c) =
     (if wrong_segment_count res then
        Inl (new_Error (js ''Invalid resolution format: '' @ res
                        @ js ''. Expected '' @ [0x22] @ js ''WxH'' @ [0x22]))
      else if segment_without_number res then
        Inl (new_Error (js ''Invalid resolution values: '' @ res))
      else if number_not_positive res then
        Inl (new_Error (js ''Invalid resolution values''))
      else Inr \<lparr>resolution = res, tone = r_tone c, platform = r_platform c,
                ttsUrl = url, assets = r_assets c\<rparr>)"
  using assms
  by (simp add: validateConfig_def parseResolution_char and_then_def assert_def
      js_gt_round64_int number_not_positive_def wrong_segment_count_def
      segment_without_number_def)

lemma validateConfig_rejects:
  assumes "r_resolution c = Is res" and "\<not> resolution_ok res"
  shows "\<exists>err. validateConfig (Is c) = Inl err"
proof (cases "validateConfig (Is c)")
  case (Inl err)
  then show ?thesis by blast
next
  case (Inr v)
  then obtain url where u: "r_ttsUrl c = Is url" "url \<noteq> []"
    by (auto simp: validateConfig_def and_then_Inr_iff assert_Inr_iff typeof_checked_Inr_iff)
  from validateConfig_char [OF u assms(1)] assms(2) Inr show ?thesis
    by (auto simp: resolution_faults split: if_splits)
qed

section \<open>The first log entry and the catch\<close>

lemmas run_simps =
  renderVideo_def renderVideo_try_def read_for_log_def random_suffix_def downloadTtsAudio_def
  downloadWithTimeout_def resolveAssets_def resolveAssets_step_def resolveAssets_try_def
  fallback_def writeFile_def suspend_def buildRenderPlan_def renderWithRemotion_def
  toSceneInputs_def uploadVideo_def pollLoop.simps timeoutMs_render_def FPS_def
  example_config_def example_env_def initial_world_def example_request_def

lemma plain_request_valid: "validateRequest (received plain_request) = Inr plain_request"
  by (simp add: plain_request_def example_request_def eval_simps)

lemma validateConfig_Inr_Is: "validateConfig rcv = Inr c \<Longrightarrow> \<exists>rc. rcv = Is rc"
  by (cases rcv) (simp_all add: validateConfig_def new_Error_def split: if_splits)

lemma validated_read_for_log:
  assumes "validateRequest request = Inr v"
  shows "read_for_log request = Inr ()"
proof -
  from assms obtain sl c where "r_scenes request = Is sl"
    and "validateConfig (r_config request) = Inr c"
    unfolding validateRequest_def
    by (auto simp: and_then_Inr_iff typeof_checked_Inr_iff)
  with validateConfig_Inr_Is [of "r_config request" c] show ?thesis
    by (auto simp: read_for_log_def)
qed

lemma renderVideo_wrap:
  assumes "read_for_log request = Inr ()"
  shows "renderVideo cfg e request w
     = (case renderVideo_try cfg e request (w\<lparr>randoms := randoms w + 1\<rparr>) of
          (Inl err, w1) \<Rightarrow>
            (Inl (new_Error (js ''Rendering failed: '' @ normalizeError err)), w1)
        | (Inr result, w1) \<Rightarrow> (Inr result, w1))"
  using assms by (simp add: renderVideo_def random_suffix_def)

lemma renderVideo_unread:
  assumes "read_for_log request = Inl err"
  shows "renderVideo cfg e request w = (Inl err, w\<lparr>randoms := randoms w + 1\<rparr>)"
  using assms by (simp add: renderVideo_def random_suffix_def)

lemma renderVideo_validation_failure:
  assumes "read_for_log request = Inr ()" and "validateRequest request = Inl err"
  shows "renderVideo cfg e request w
           = (Inl (new_Error (js ''Rendering failed: '' @ normalizeError err)),
              w\<lparr>randoms := randoms w + 1\<rparr>)"
  using assms by (simp add: renderVideo_wrap renderVideo_try_def)

lemma renderVideo_rejected:
  assumes "validateRequest request = Inl err"
  shows "\<exists>err'. renderVideo cfg e request w = (Inl err', w\<lparr>randoms := randoms w + 1\<rparr>)"
proof (cases "read_for_log request")
  case (Inl a)
  from renderVideo_unread [OF this] show ?thesis by blast
next
  case (Inr u)
  then have "read_for_log request = Inr ()" by simp
  from renderVideo_validation_failure [OF this assms] show ?thesis by blast
qed

lemma renderVideo_try_upload:
  assumes "validateRequest request = Inr v"
    and "downloadTtsAudio cfg e (ttsUrl (config v)) w0 = (Inr audio, w1)"
    and "resolveAssets cfg e (assets (config v)) w1 = (Inr ras, w2)"
    and "buildRenderPlan v audio ras = Inr plan"
    and "renderWithRemotion e plan w2 = (Inr video, w3)"
  shows "renderVideo_try cfg e request w0
           = (if responseMode cfg = js ''url'' then
                (case uploadVideo cfg e video w3 of
                   (Inl err, w4) \<Rightarrow> (Inl err, w4)
                 | (Inr video_url, w4) \<Rightarrow> (Inr (UrlResponse video_url), w4))
              else (Inr (Binary video), w3))"
  using assms by (simp add: renderVideo_try_def)

section \<open>Rejection of a resolution\<close>

lemma validateRequest_char:
  assumes "r_scenes request = Is sl" and "sl \<noteq> []" and "validateScenes 0 sl = Inr ss"
    and "r_config request = Is c"
    and "r_ttsUrl c = Is url" and "url \<noteq> []" and "r_resolution c = Is res"
  shows "validateRequest request =
     (if wrong_segment_count res then
        Inl (new_Error (js ''Invalid resolution format: '' @ res
                        @ js ''. Expected '' @ [0x22] @ js ''WxH'' @ [0x22]))
      else if segment_without_number res then
        Inl (new_Error (js ''Invalid resolution values: '' @ res))
      else if number_not_positive res then
        Inl (new_Error (js ''Invalid resolution values''))
      else Inr \<lparr>scenes = ss,
                config = \<lparr>resolution = res, tone = r_tone c, platform = r_platform c,
                          ttsUrl = url, assets = r_assets c\<rparr>\<rparr>)"
  unfolding validateRequest_def assms(1,4) validateConfig_char [OF assms(5-7)]
  using assms(2,3) by (simp add: and_then_def assert_def)

lemma validateRequest_rejects:
  assumes "r_config request = Is c" and "r_resolution c = Is res" and "\<not> resolution_ok res"
  shows "\<exists>err. validateRequest request = Inl err"
proof (cases "validateRequest request")
  case (Inl err)
  then show ?thesis by blast
next
  case (Inr v)
  then obtain c' where "validateConfig (r_config request) = Inr c'"
    unfolding validateRequest_def by (auto simp: and_then_Inr_iff)
  with validateConfig_rejects [OF assms(2,3)] assms(1) show ?thesis by simp
qed

lemma wrapped_message:
  assumes "read_for_log request = Inr ()" and "validateRequest request = Inl (new_Error m)"
  shows "fst (renderVideo cfg e request w) = Inl (new_Error (js ''Rendering failed: '' @ m))"
  using renderVideo_validation_failure [OF assms, of cfg e w] by (simp add: new_Error_def)

text \<open>
  C6, as the source has it. A resolution is without fault when it has exactly one \<open>x\<close>
  and the parts before and after it each start, after white space and at most one sign,
  with decimal digits that denote a positive number; every string of the form
  \<open><int>x<int>\<close> with positive numbers is of that kind. \<open>validateRequest\<close> rejects every
  request whose resolution string has a fault, \<open>renderVideo\<close> then fails, and nothing has
  been fetched or written by then. When nothing else is wrong with the request, the
  rejection is the \<open>Error\<close> with the message \<open>Invalid resolution format: <res>. Expected
  "WxH"\<close> when the number of \<open>x\<close> is not one, \<open>Invalid resolution values: <res>\<close> when a
  part does not start with a number, and \<open>Invalid resolution values\<close> when a number is
  not positive, and \<open>renderVideo\<close> fails with that message after \<open>Rendering failed: \<close>;
  a resolution without fault passes.
\<close>

theorem validateRequest_resolution:
  assumes "r_config request = Is c" and "r_resolution c = Is res"
  shows "(\<not> resolution_ok res
            \<longleftrightarrow> wrong_segment_count res \<or> segment_without_number res \<or> number_not_positive res)
       \<and> (strict_resolution res \<longrightarrow> resolution_ok res)
       \<and> (\<not> resolution_ok res \<longrightarrow>
            (\<exists>err. validateRequest request = Inl err)
            \<and> (\<exists>err. fst (renderVideo cfg e request w) = Inl err)
            \<and> snd (renderVideo cfg e request w) = w\<lparr>randoms := randoms w + 1\<rparr>
            \<and> fetched (snd (renderVideo cfg e request w)) = fetched w
            \<and> written (snd (renderVideo cfg e request w)) = written w)
       \<and> (r_scenes request = Is sl \<and> sl \<noteq> [] \<and> validateScenes 0 sl = Inr ss
            \<and> r_ttsUrl c = Is url \<and> url \<noteq> [] \<longrightarrow>
            (wrong_segment_count res \<longrightarrow>
               validateRequest request
                 = Inl (new_Error (js ''Invalid resolution format: '' @ res
                                   @ js ''. Expected '' @ [0x22] @ js ''WxH'' @ [0x22]))
               \<and> fst (renderVideo cfg e request w)
                 = Inl (new_Error (js ''Rendering failed: '' @ js ''Invalid resolution format: ''
                                   @ res @ js ''. Expected '' @ [0x22] @ js ''WxH'' @ [0x22])))
            \<and> (segment_without_number res \<longrightarrow>
               validateRequest request
                 = Inl (new_Error (js ''Invalid resolution values: '' @ res))
               \<and> fst (renderVideo cfg e request w)
                 = Inl (new_Error (js ''Rendering failed: '' @ js ''Invalid resolution values: ''
                                   @ res)))
            \<and> (number_not_positive res \<longrightarrow>
               validateRequest request = Inl (new_Error (js ''Invalid resolution values''))
               \<and> fst (renderVideo cfg e request w)
                 = Inl (new_Error (js ''Rendering failed: '' @ js ''Invalid resolution values'')))
            \<and> (resolution_ok res \<longrightarrow>
               validateRequest request
                 = Inr \<lparr>scenes = ss,
                        config = \<lparr>resolution = res, tone = r_tone c, platform = r_platform c,
                                  ttsUrl = url, assets = r_assets c\<rparr>\<rparr>))"
proof -
  have A: "\<not> resolution_ok res
            \<longleftrightarrow> wrong_segment_count res \<or> segment_without_number res \<or> number_not_positive res"
    by (rule resolution_faults)
  have B: "strict_resolution res \<longrightarrow> resolution_ok res"
    using strict_resolution_ok by blast
  have C: "(\<exists>err. validateRequest request = Inl err)
            \<and> (\<exists>err. fst (renderVideo cfg e request w) = Inl err)
            \<and> snd (renderVideo cfg e request w) = w\<lparr>randoms := randoms w + 1\<rparr>
            \<and> fetched (snd (renderVideo cfg e request w)) = fetched w
            \<and> written (snd (renderVideo cfg e request w)) = written w"
    if "\<not> resolution_ok res"
  proof -
    from validateRequest_rejects [OF assms that] obtain err
      where err: "validateRequest request = Inl err" by blast
    from renderVideo_rejected [OF err, of cfg e w] obtain err'
      where "renderVideo cfg e request w = (Inl err', w\<lparr>randoms := randoms w + 1\<rparr>)" by blast
    with err show ?thesis by simp
  qed
  have D: "(wrong_segment_count res \<longrightarrow>
               validateRequest request
                 = Inl (new_Error (js ''Invalid resolution format: '' @ res
                                   @ js ''. Expected '' @ [0x22] @ js ''WxH'' @ [0x22]))
               \<and> fst (renderVideo cfg e request w)
                 = Inl (new_Error (js ''Rendering failed: '' @ js ''Invalid resolution format: ''
                                   @ res @ js ''. Expected '' @ [0x22] @ js ''WxH'' @ [0x22])))
            \<and> (segment_without_number res \<longrightarrow>
               validateRequest request
                 = Inl (new_Error (js ''Invalid resolution values: '' @ res))
               \<and> fst (renderVideo cfg e request w)
                 = Inl (new_Error (js ''Rendering failed: '' @ js ''Invalid resolution values: ''
                                   @ res)))
            \<and> (number_not_positive res \<longrightarrow>
               validateRequest request = Inl (new_Error (js ''Invalid resolution values''))
               \<and> fst (renderVideo cfg e request w)
                 = Inl (new_Error (js ''Rendering failed: '' @ js ''Invalid resolution values'')))
            \<and> (resolution_ok res \<longrightarrow>
               validateRequest request
                 = Inr \<lparr>scenes = ss,
                        config = \<lparr>resolution = res, tone = r_tone c, platform = r_platform c,
                                  ttsUrl = url, assets = r_assets c\<rparr>\<rparr>)"
    if h: "r_scenes request = Is sl \<and> sl \<noteq> [] \<and> validateScenes 0 sl = Inr ss
            \<and> r_ttsUrl c = Is url \<and> url \<noteq> []"
  proof -
    from h have h': "r_scenes request = Is sl" "sl \<noteq> []" "validateScenes 0 sl = Inr ss"
      "r_ttsUrl c = Is url" "url \<noteq> []" by simp_all
    note V = validateRequest_char [OF h'(1-3) assms(1) h'(4,5) assms(2)]
    have L: "read_for_log request = Inr ()"
      using h'(1) assms(1) by (simp add: read_for_log_def)
    have 1: "validateRequest request
                 = Inl (new_Error (js ''Invalid resolution format: '' @ res
                                   @ js ''. Expected '' @ [0x22] @ js ''WxH'' @ [0x22]))"
      if "wrong_segment_count res"
      unfolding V using that by simp
    have 2: "validateRequest request = Inl (new_Error (js ''Invalid resolution values: '' @ res))"
      if "segment_without_number res"
      unfolding V using that by (simp add: segment_without_number_def wrong_segment_count_def)
    have 3: "validateRequest request = Inl (new_Error (js ''Invalid resolution values''))"
      if "number_not_positive res"
      unfolding V using that
      by (simp add: number_not_positive_def segment_without_number_def wrong_segment_count_def)
    have 4: "validateRequest request
                 = Inr \<lparr>scenes = ss,
                        config = \<lparr>resolution = res, tone = r_tone c, platform = r_platform c,
                                  ttsUrl = url, assets = r_assets c\<rparr>\<rparr>"
      if "resolution_ok res"
      unfolding V using that
      by (simp add: resolution_ok_def number_not_positive_def segment_without_number_def
          wrong_segment_count_def)
    from 1 2 3 4 wrapped_message [OF L 1] wrapped_message [OF L 2] wrapped_message [OF L 3]
    show ?thesis by blast
  qed
  from A B C D show ?thesis by blast
qed

theorem validateRequest_resolution_witness:
  "r_config (received no_x_request) = Is (received_config (config no_x_request))
   \<and> r_resolution (received_config (config no_x_request)) = Is (js ''1080'')
   \<and> wrong_segment_count (js ''1080'')
   \<and> validateRequest (received no_x_request)
       = Inl (new_Error (js ''Invalid resolution format: 1080. Expected '' @ [0x22] @ js ''WxH'' @ [0x22]))
   \<and> fst (renderVideo example_config example_env (received no_x_request) initial_world)
       = Inl (new_Error (js ''Rendering failed: Invalid resolution format: 1080. Expected ''
                         @ [0x22] @ js ''WxH'' @ [0x22]))
   \<and> fetched (snd (renderVideo example_config example_env (received no_x_request) initial_world))
       = []"
proof -
  have h1: "r_config (received no_x_request) = Is (received_config (config no_x_request))"
    by (simp add: received_def)
  have h2: "r_resolution (received_config (config no_x_request)) = Is (js ''1080'')"
    by (simp add: received_config_def no_x_request_def)
  have f: "wrong_segment_count (js ''1080'')"
    by (simp add: wrong_segment_count_def count_x_def js_def)
  then have nok: "\<not> resolution_ok (js ''1080'')"
    by (simp add: resolution_ok_def wrong_segment_count_def)
  have only: "r_scenes (received no_x_request)
                = Is (map (\<lambda>s. Is (received_scene s)) (scenes no_x_request))
      \<and> map (\<lambda>s. Is (received_scene s)) (scenes no_x_request) \<noteq> []
      \<and> validateScenes 0 (map (\<lambda>s. Is (received_scene s)) (scenes no_x_request))
          = Inr (scenes no_x_request)
      \<and> r_ttsUrl (received_config (config no_x_request)) = Is (ttsUrl (config no_x_request))
      \<and> ttsUrl (config no_x_request) \<noteq> []"
    by (simp add: no_x_request_def example_request_def eval_simps)
  note T = validateRequest_resolution
      [where request = "received no_x_request" and c = "received_config (config no_x_request)"
         and res = "js ''1080''" and cfg = example_config and e = example_env
         and w = initial_world
         and sl = "map (\<lambda>s. Is (received_scene s)) (scenes no_x_request)"
         and ss = "scenes no_x_request" and url = "ttsUrl (config no_x_request)",
       OF h1 h2]
  note G = T [THEN conjunct2, THEN conjunct2, THEN conjunct1, THEN mp, OF nok]
  note M = T [THEN conjunct2, THEN conjunct2, THEN conjunct2, THEN mp, OF only,
              THEN conjunct1, THEN mp, OF f]
  from G have g: "fetched (snd (renderVideo example_config example_env (received no_x_request)
                      initial_world)) = []"
    by (simp add: initial_world_def)
  from M have m: "validateRequest (received no_x_request)
       = Inl (new_Error (js ''Invalid resolution format: 1080. Expected '' @ [0x22] @ js ''WxH'' @ [0x22]))"
    "fst (renderVideo example_config example_env (received no_x_request) initial_world)
       = Inl (new_Error (js ''Rendering failed: Invalid resolution format: 1080. Expected ''
                         @ [0x22] @ js ''WxH'' @ [0x22]))"
    by (simp_all add: js_def)
  from h1 h2 f g m show ?thesis by blast
qed

text \<open>
  C6 as stated fails: \<open>1080x1920p\<close> is not of the form \<open><int>x<int>\<close>, and the request
  passes validation, because \<open>parseInt\<close> stops reading at the \<open>p\<close>.
\<close>

theorem validateRequest_accepts_suffix:
  "\<not> strict_resolution (js ''1080x1920p'')
   \<and> resolution (config lenient_request) = js ''1080x1920p''
   \<and> validateRequest (received lenient_request) = Inr lenient_request"
  by (simp add: strict_resolution_def isPositiveInt_def lenient_request_def example_request_def
                eval_simps)

section \<open>Asset resolution never fails\<close>

lemma resolveAssets_step_total:
  "\<exists>entry w1. resolveAssets_step cfg e asset w = (Inr entry, w1)
      \<and> resolved_searchTerms entry = asset_searchTerms asset"
proof (cases "videoUrl asset")
  case None
  then show ?thesis by (simp add: resolveAssets_step_def fallback_def)
next
  case (Some url)
  show ?thesis
  proof (cases "url = []")
    case True
    with Some show ?thesis by (simp add: resolveAssets_step_def fallback_def)
  next
    case False
    obtain r w1 where t: "resolveAssets_try cfg e asset url w = (r, w1)"
      by (cases "resolveAssets_try cfg e asset url w") auto
    show ?thesis
    proof (cases r)
      case (Inl err)
      with t Some False show ?thesis by (simp add: resolveAssets_step_def fallback_def)
    next
      case (Inr entry)
      with t have "resolved_searchTerms entry = asset_searchTerms asset"
        by (auto simp: resolveAssets_try_def Let_def split: prod.splits sum.splits)
      with Inr t Some False show ?thesis by (simp add: resolveAssets_step_def)
    qed
  qed
qed

lemma resolveAssets_try_localPath:
  "resolveAssets_try cfg e asset url w = (Inr entry, w1) \<Longrightarrow>
   localPath entry \<noteq> None \<and> resolved_videoUrl entry = Some url"
  by (auto simp: resolveAssets_try_def Let_def split: prod.splits sum.splits)

lemma resolveAssets_step_entry:
  "fst (resolveAssets_step cfg e asset w) =
     Inr (case videoUrl asset of
            None \<Rightarrow> fallback asset
          | Some url \<Rightarrow>
              if url = [] then fallback asset
              else (case fst (resolveAssets_try cfg e asset url w) of
                      Inl err \<Rightarrow> fallback asset
                    | Inr entry \<Rightarrow> entry))"
  by (auto simp: resolveAssets_step_def split: option.splits prod.splits sum.splits)

lemma resolveAssets_loop_total:
  "\<exists>rs w1. resolveAssets_loop cfg e asset_list resolved w = (Inr (resolved @ rs), w1)
      \<and> length rs = length asset_list"
proof (induction asset_list arbitrary: resolved w)
  case Nil
  then show ?case by simp
next
  case (Cons asset rest)
  from resolveAssets_step_total [of cfg e asset w] obtain entry w1
    where s: "resolveAssets_step cfg e asset w = (Inr entry, w1)" by blast
  from Cons [of "resolved @ [entry]" w1] obtain rs w2
    where "resolveAssets_loop cfg e rest (resolved @ [entry]) w1 = (Inr ((resolved @ [entry]) @ rs), w2)"
      and "length rs = length rest" by blast
  with s have "resolveAssets_loop cfg e (asset # rest) resolved w = (Inr (resolved @ (entry # rs)), w2)
      \<and> length (entry # rs) = length (asset # rest)"
    by simp
  then show ?case by blast
qed

lemma resolveAssets_loop_nth:
  assumes "resolveAssets_loop cfg e asset_list resolved w = (Inr (resolved @ rs), w1)"
    and "i < length asset_list"
  shows "Inr (rs ! i) = fst (resolveAssets_step cfg e (asset_list ! i)
                               (snd (resolveAssets_loop cfg e (take i asset_list) resolved w)))"
  using assms
proof (induction asset_list arbitrary: resolved w rs i)
  case Nil
  then show ?case by simp
next
  case (Cons asset rest)
  from resolveAssets_step_total [of cfg e asset w] obtain entry w0
    where s: "resolveAssets_step cfg e asset w = (Inr entry, w0)" by blast
  from resolveAssets_loop_total [of cfg e rest "resolved @ [entry]" w0] obtain rs' w2
    where l: "resolveAssets_loop cfg e rest (resolved @ [entry]) w0 = (Inr ((resolved @ [entry]) @ rs'), w2)"
    by blast
  with s Cons.prems(1) have rs: "rs = entry # rs'" and w2: "w2 = w1" by simp_all
  show ?case
  proof (cases i)
    case 0
    with s rs show ?thesis by simp
  next
    case (Suc j)
    with Cons.prems(2) have j: "j < length rest" by simp
    from Cons.IH [OF l [unfolded w2] j] s rs Suc show ?thesis by simp
  qed
qed

lemma resolveAssets_try_download_failure:
  assumes "fst (downloadWithTimeout e url
                  (if assetDownloadTimeoutMs cfg = 0 then 15000 else assetDownloadTimeoutMs cfg)
                  (js ''Asset download failed'') w) = Inl err"
  shows "fst (resolveAssets_try cfg e asset url w) = Inl err"
proof -
  obtain r w1 where d: "downloadWithTimeout e url
                  (if assetDownloadTimeoutMs cfg = 0 then 15000 else assetDownloadTimeoutMs cfg)
                  (js ''Asset download failed'') w = (r, w1)"
    by (cases "downloadWithTimeout e url
                  (if assetDownloadTimeoutMs cfg = 0 then 15000 else assetDownloadTimeoutMs cfg)
                  (js ''Asset download failed'') w") auto
  with assms have "r = Inl err" by simp
  with d show ?thesis by (simp add: resolveAssets_try_def)
qed

lemma downloadWithTimeout_failure:
  assumes "(\<exists>err. fetch_result e (awaits w) url = FetchRejected err)
         \<or> (\<exists>code body. fetch_result e (awaits w) url = Response False code body)
         \<or> (\<exists>code err. fetch_result e (awaits w) url = Response True code (Inl err))"
  shows "\<exists>err. fst (downloadWithTimeout e url t m w) = Inl err"
  using assms by (auto simp: downloadWithTimeout_def Let_def)

lemma downloadWithTimeout_success:
  assumes "fetch_result e (awaits w) url = Response True code (Inr buf)"
  shows "downloadWithTimeout e url t m w
           = (Inr buf, suspend e 0 ((suspend e 0 w)\<lparr>fetched := fetched w @ [url]\<rparr>))"
  using assms by (simp add: downloadWithTimeout_def Let_def)

lemma resolveAssets_try_write_failure:
  assumes "\<forall>file_path. writeFile_result e (awaits w + 2) file_path \<noteq> None"
  shows "\<exists>err. fst (resolveAssets_try cfg e asset url w) = Inl err"
proof (cases "\<exists>code buf. fetch_result e (awaits w) url = Response True code (Inr buf)")
  case False
  then have "(\<exists>err. fetch_result e (awaits w) url = FetchRejected err)
         \<or> (\<exists>code body. fetch_result e (awaits w) url = Response False code body)
         \<or> (\<exists>code err. fetch_result e (awaits w) url = Response True code (Inl err))"
    by (cases "fetch_result e (awaits w) url") (metis (full_types) sum.exhaust_sel)+
  from downloadWithTimeout_failure [OF this] obtain err
    where "fst (downloadWithTimeout e url
                  (if assetDownloadTimeoutMs cfg = 0 then 15000 else assetDownloadTimeoutMs cfg)
                  (js ''Asset download failed'') w) = Inl err"
    by blast
  from resolveAssets_try_download_failure [OF this] show ?thesis by blast
next
  case True
  then obtain code buf where "fetch_result e (awaits w) url = Response True code (Inr buf)"
    by blast
  note d = downloadWithTimeout_success [OF this]
  let ?w2 = "suspend e 0 ((suspend e 0 w)\<lparr>fetched := fetched w @ [url]\<rparr>)"
  have a: "awaits (?w2\<lparr>randoms := randoms ?w2 + 1\<rparr>) = awaits w + 2"
    by (simp add: suspend_def)
  define P where "P = path_join e (tempDirPath cfg)
      (js ''asset-'' @ show_nat (now ?w2) @ js ''-'' @ random36 e (randoms ?w2) @ js ''.mp4'')"
  from assms [rule_format, of P] obtain err
    where "writeFile_result e (awaits w + 2) P = Some err"
    by blast
  with a have wf: "writeFile e P buf (?w2\<lparr>randoms := randoms ?w2 + 1\<rparr>)
           = (Inl err, suspend e 0 (?w2\<lparr>randoms := randoms ?w2 + 1\<rparr>))"
    by (simp add: writeFile_def)
  have "resolveAssets_try cfg e asset url w
          = (Inl err, suspend e 0 (?w2\<lparr>randoms := randoms ?w2 + 1\<rparr>))"
    unfolding resolveAssets_try_def Let_def d random_suffix_def
    by (simp only: prod.case sum.case wf [unfolded P_def])
  then show ?thesis by simp
qed

lemma resolveAssets_step_ok:
  assumes step: "fst (resolveAssets_step cfg e a wi) = Inr entry"
  shows "entry_ok cfg e a wi entry"
proof -
  from resolveAssets_step_total [of cfg e a wi] step
  have A: "resolved_searchTerms entry = asset_searchTerms a"
    by auto
  from step have entry: "entry = (case videoUrl a of
          None \<Rightarrow> fallback a
        | Some url \<Rightarrow>
            if url = [] then fallback a
            else (case fst (resolveAssets_try cfg e a url wi) of
                    Inl err \<Rightarrow> fallback a
                  | Inr entry \<Rightarrow> entry))"
    unfolding resolveAssets_step_entry by simp
  have B: "videoUrl a = None \<or> videoUrl a = Some [] \<longrightarrow> entry = fallback a"
    using entry by auto
  have C: "entry = fallback a"
    if u: "videoUrl a = Some url"
      and f: "(\<exists>err. fetch_result e (awaits wi) url = FetchRejected err)
            \<or> (\<exists>code body. fetch_result e (awaits wi) url = Response False code body)
            \<or> (\<exists>code err. fetch_result e (awaits wi) url = Response True code (Inl err))
            \<or> (\<forall>file_path. writeFile_result e (awaits wi + 2) file_path \<noteq> None)"
    for url
  proof -
    have "\<exists>err. fst (resolveAssets_try cfg e a url wi) = Inl err"
    proof (cases "\<forall>file_path. writeFile_result e (awaits wi + 2) file_path \<noteq> None")
      case True
      then show ?thesis by (rule resolveAssets_try_write_failure)
    next
      case False
      with f have "(\<exists>err. fetch_result e (awaits wi) url = FetchRejected err)
            \<or> (\<exists>code body. fetch_result e (awaits wi) url = Response False code body)
            \<or> (\<exists>code err. fetch_result e (awaits wi) url = Response True code (Inl err))"
        by blast
      from downloadWithTimeout_failure [OF this] obtain err
        where "fst (downloadWithTimeout e url
                (if assetDownloadTimeoutMs cfg = 0 then 15000 else assetDownloadTimeoutMs cfg)
                (js ''Asset download failed'') wi) = Inl err"
        by blast
      from resolveAssets_try_download_failure [OF this] show ?thesis by blast
    qed
    with entry u show ?thesis by auto
  qed
  have D: "entry = fallback a \<and> localPath entry = None \<and> resolved_videoUrl entry = None
            \<or> (\<exists>url. videoUrl a = Some url \<and> url \<noteq> []
                  \<and> fst (resolveAssets_try cfg e a url wi) = Inr entry
                  \<and> localPath entry \<noteq> None)"
  proof (cases "entry = fallback a")
    case True
    then show ?thesis by (simp add: fallback_def)
  next
    case False
    with entry obtain url where u: "videoUrl a = Some url" "url \<noteq> []"
      by (auto split: option.splits if_splits)
    with entry False have t: "fst (resolveAssets_try cfg e a url wi) = Inr entry"
      by (auto split: sum.splits)
    then have "localPath entry \<noteq> None"
      using resolveAssets_try_localPath [of cfg e a url wi entry]
      by (cases "resolveAssets_try cfg e a url wi") auto
    with u t show ?thesis by blast
  qed
  from A B C D show ?thesis unfolding entry_ok_def by blast
qed

text \<open>
  C3. For every asset list and whatever the downloads and file writes do,
  \<open>resolveAssets\<close> returns normally, with exactly one entry per asset, in the order of
  the input: the entry at position \<open>i\<close> belongs to asset \<open>i\<close>, and it is the fallback
  entry whenever that asset has no URL or its download or its file write failed.
\<close>

theorem resolveAssets_total:
  "\<exists>rs w1. resolveAssets cfg e asset_list w = (Inr rs, w1)
     \<and> length rs = length asset_list
     \<and> (\<forall>i < length asset_list.
          entry_ok cfg e (asset_list ! i) (snd (resolveAssets cfg e (take i asset_list) w)) (rs ! i))"
proof -
  from resolveAssets_loop_total [of cfg e asset_list "[]" w] obtain rs w1
    where r: "resolveAssets_loop cfg e asset_list [] w = (Inr ([] @ rs), w1)"
      and len: "length rs = length asset_list"
    by blast
  have "entry_ok cfg e (asset_list ! i) (snd (resolveAssets cfg e (take i asset_list) w)) (rs ! i)"
    if i: "i < length asset_list" for i
  proof -
    have wi: "snd (resolveAssets_loop cfg e (take i asset_list) [] w)
                = snd (resolveAssets cfg e (take i asset_list) w)"
      by (simp add: resolveAssets_def)
    from resolveAssets_loop_nth [OF r i] show ?thesis
      unfolding wi by (simp add: resolveAssets_step_ok)
  qed
  with r len show ?thesis
    unfolding resolveAssets_def by auto
qed

theorem resolveAssets_total_witness:
  "fetch_result example_env (awaits initial_world) (js ''https://v.example/missing.mp4'')
     = Response False 404 (Inr [])
   \<and> length (projr (fst (resolveAssets example_config example_env example_assets initial_world))) = 3
   \<and> projr (fst (resolveAssets example_config example_env example_assets initial_world)) ! 0
       = fallback (example_assets ! 0)
   \<and> projr (fst (resolveAssets example_config example_env example_assets initial_world)) ! 1
       = fallback (example_assets ! 1)
   \<and> localPath
         (projr (fst (resolveAssets example_config example_env example_assets initial_world)) ! 0)
       = None"
proof -
  from resolveAssets_total [of example_config example_env example_assets initial_world]
  obtain rs w1
    where r: "resolveAssets example_config example_env example_assets initial_world = (Inr rs, w1)"
      and len: "length rs = length example_assets"
      and pos: "\<forall>i < length example_assets.
          entry_ok example_config example_env (example_assets ! i)
            (snd (resolveAssets example_config example_env (take i example_assets) initial_world))
            (rs ! i)"
    by blast
  have n: "length example_assets = 3"
    and u0: "videoUrl (example_assets ! 0) = Some (js ''https://v.example/missing.mp4'')"
    and u1: "videoUrl (example_assets ! 1) = None"
    by (simp_all add: example_assets_def)
  have f: "fetch_result example_env (awaits initial_world) (js ''https://v.example/missing.mp4'')
     = Response False 404 (Inr [])"
    by (simp add: example_env_def)
  have w0: "snd (resolveAssets example_config example_env (take 0 example_assets) initial_world)
              = initial_world"
    by (simp add: resolveAssets_def)
  have "(0::nat) < length example_assets" "(1::nat) < length example_assets"
    by (simp_all add: n)
  note p0 = pos [rule_format, OF this(1)] and p1 = pos [rule_format, OF this(2)]
  from p0 have "entry_ok example_config example_env (example_assets ! 0)
      (snd (resolveAssets example_config example_env (take 0 example_assets) initial_world)) (rs ! 0)"
    .
  then have "entry_ok example_config example_env (example_assets ! 0) initial_world (rs ! 0)"
    unfolding w0 .
  with u0 f have e0: "rs ! 0 = fallback (example_assets ! 0)"
    unfolding entry_ok_def by blast
  from p1 u1 have e1: "rs ! 1 = fallback (example_assets ! 1)"
    unfolding entry_ok_def by blast
  from r len n e0 e1 f show ?thesis by (simp add: fallback_def)
qed

section \<open>The polling loop ends\<close>

lemma polls_after_polls: "polls (after_polls e n w) = polls w + n"
  by (induction n arbitrary: w) (simp_all add: suspend_def)

lemma now_after_polls_Suc:
  "now (after_polls e (Suc n) w)
     = now (after_polls e n w) + 1000 + elapsed e (awaits (after_polls e n w))"
proof (induction n arbitrary: w)
  case 0
  show ?case by (simp add: suspend_def)
next
  case (Suc n)
  from Suc [of "suspend e 1000 (w\<lparr>polls := polls w + 1\<rparr>)"] show ?case by simp
qed

lemma now_after_polls_lower: "now w + 1000 * n \<le> now (after_polls e n w)"
proof (induction n)
  case 0
  show ?case by simp
next
  case (Suc n)
  then show ?case unfolding now_after_polls_Suc by simp
qed

lemma now_after_polls_exact:
  "(\<forall>k. elapsed e k = 0) \<Longrightarrow> now (after_polls e n w) = now w + 1000 * n"
proof (induction n)
  case 0
  show ?case by simp
next
  case (Suc n)
  then show ?case unfolding now_after_polls_Suc by simp
qed

lemma polling_ends_0:
  assumes "startTime + 180000 \<le> now w
           \<or> status e videoId (polls w) = Ready \<or> status e videoId (polls w) = Failed"
  shows "polling_ends e videoId startTime w 0"
proof (cases "now w < startTime + 180000")
  case False
  then have "pollLoop e videoId startTime w = (Inl (new_Error (js ''Render timed out'')), w)"
    by (simp add: pollLoop.simps [of e videoId startTime w] timeoutMs_render_def)
  with False show ?thesis by (simp add: polling_ends_def)
next
  case True
  then have c: "int (now w) - int startTime < int timeoutMs_render"
    by (simp add: timeoutMs_render_def)
  from True assms have "status e videoId (polls w) = Ready \<or> status e videoId (polls w) = Failed"
    by simp
  with c True show ?thesis
    by (auto simp: polling_ends_def pollLoop.simps [of e videoId startTime w])
qed

lemma polling_ends_Suc:
  assumes t: "now w < startTime + 180000"
    and pending: "status e videoId (polls w) = Queued \<or> status e videoId (polls w) = Rendering"
    and n: "polling_ends e videoId startTime (suspend e 1000 (w\<lparr>polls := polls w + 1\<rparr>)) n"
  shows "polling_ends e videoId startTime w (Suc n)"
proof -
  let ?w' = "suspend e 1000 (w\<lparr>polls := polls w + 1\<rparr>)"
  from t have c: "int (now w) - int startTime < int timeoutMs_render"
    by (simp add: timeoutMs_render_def)
  with pending have unroll: "pollLoop e videoId startTime w = pollLoop e videoId startTime ?w'"
    by (auto simp: pollLoop.simps [of e videoId startTime w])
  have p: "polls ?w' = polls w + 1"
    by (simp add: suspend_def)
  have a: "after_polls e k ?w' = after_polls e (Suc k) w" for k
    by simp
  have before: "(status e videoId (polls w + k) = Queued
                  \<or> status e videoId (polls w + k) = Rendering)
                \<and> now (after_polls e k w) < startTime + 180000"
    if "k < Suc n" for k
  proof (cases k)
    case 0
    with pending t show ?thesis by simp
  next
    case (Suc j)
    with that have "j < n" by simp
    with n have "(status e videoId (polls ?w' + j) = Queued
                  \<or> status e videoId (polls ?w' + j) = Rendering)
                \<and> now (after_polls e j ?w') < startTime + 180000"
      unfolding polling_ends_def by blast
    with Suc show ?thesis unfolding p a by simp
  qed
  from n have "now (after_polls e n ?w') < startTime + 180000
      \<and> status e videoId (polls ?w' + n) = Ready
      \<and> pollLoop e videoId startTime ?w'
          = (getVideo e videoId, (after_polls e n ?w')\<lparr>polls := polls ?w' + n + 1\<rparr>)
    \<or> now (after_polls e n ?w') < startTime + 180000
      \<and> status e videoId (polls ?w' + n) = Failed
      \<and> pollLoop e videoId startTime ?w'
          = (Inl (new_Error (js ''ShortCreator render failed'')),
             (after_polls e n ?w')\<lparr>polls := polls ?w' + n + 1\<rparr>)
    \<or> startTime + 180000 \<le> now (after_polls e n ?w')
      \<and> pollLoop e videoId startTime ?w'
          = (Inl (new_Error (js ''Render timed out'')), after_polls e n ?w')"
    unfolding polling_ends_def by blast
  then have last: "now (after_polls e (Suc n) w) < startTime + 180000
      \<and> status e videoId (polls w + Suc n) = Ready
      \<and> pollLoop e videoId startTime w
          = (getVideo e videoId, (after_polls e (Suc n) w)\<lparr>polls := polls w + Suc n + 1\<rparr>)
    \<or> now (after_polls e (Suc n) w) < startTime + 180000
      \<and> status e videoId (polls w + Suc n) = Failed
      \<and> pollLoop e videoId startTime w
          = (Inl (new_Error (js ''ShortCreator render failed'')),
             (after_polls e (Suc n) w)\<lparr>polls := polls w + Suc n + 1\<rparr>)
    \<or> startTime + 180000 \<le> now (after_polls e (Suc n) w)
      \<and> pollLoop e videoId startTime w
          = (Inl (new_Error (js ''Render timed out'')), after_polls e (Suc n) w)"
    unfolding unroll p a by (simp add: add.commute add.left_commute)
  from before last show ?thesis
    unfolding polling_ends_def by blast
qed

lemma pollLoop_run:
  "\<exists>n. n \<le> (startTime + 180000 - now w + 999) div 1000 \<and> polling_ends e videoId startTime w n"
proof (induction e videoId startTime w rule: pollLoop.induct)
  case (1 e videoId startTime w)
  let ?w' = "suspend e 1000 (w\<lparr>polls := polls w + 1\<rparr>)"
  show ?case
  proof (cases "startTime + 180000 \<le> now w
           \<or> status e videoId (polls w) = Ready \<or> status e videoId (polls w) = Failed")
    case True
    from polling_ends_0 [OF this] show ?thesis by blast
  next
    case False
    then have t: "now w < startTime + 180000"
      and pending: "status e videoId (polls w) = Queued \<or> status e videoId (polls w) = Rendering"
      by (cases "status e videoId (polls w)"; simp)+
    from t have c: "int (now w) - int startTime < int timeoutMs_render"
      by (simp add: timeoutMs_render_def)
    from pending "1.IH"(1) [OF c] "1.IH"(2) [OF c] obtain n
      where b: "n \<le> (startTime + 180000 - now ?w' + 999) div 1000"
        and n: "polling_ends e videoId startTime ?w' n"
      by blast
    define d where "d = startTime + 180000 - now w"
    define d' where "d' = startTime + 180000 - now ?w'"
    have "now w + 1000 \<le> now ?w'"
      by (simp add: suspend_def)
    with t have d: "0 < d" "d' \<le> d - 1000"
      unfolding d_def d'_def by linarith+
    have "(d' + 999) div 1000 + 1 \<le> (d + 999) div 1000"
    proof (cases "1000 \<le> d")
      case True
      with d have "(d' + 999) + 1000 \<le> d + 999" by linarith
      then have "((d' + 999) + 1000) div 1000 \<le> (d + 999) div 1000"
        by (rule div_le_mono)
      then show ?thesis by simp
    next
      case False
      with d have "d' = 0" by linarith
      moreover from d have "1000 div 1000 \<le> (d + 999) div 1000"
        by (intro div_le_mono) linarith
      ultimately show ?thesis by simp
    qed
    with b have "Suc n \<le> (startTime + 180000 - now w + 999) div 1000"
      unfolding d_def d'_def by simp
    with polling_ends_Suc [OF t pending n] show ?thesis by blast
  qed
qed

text \<open>
  C4. Once the job is submitted, \<open>renderWithRemotion\<close> is its polling loop, started at
  the clock reading it takes as \<open>startTime\<close>, and the loop always ends: after at most 180
  rounds, a second or more apart, it has returned the video of a job found ready, thrown
  \<open>ShortCreator render failed\<close> for a job found failed, or thrown \<open>Render timed out\<close>.
  If the job never leaves the queued and rendering states the outcome is the timeout; it
  is thrown when 180000 ms have passed since \<open>startTime\<close> and not before (the check one
  round earlier was still within the deadline), and exactly at 180000 ms, after 180
  rounds, when nothing but the sleeps takes time.
\<close>

theorem pollLoop_terminates:
  assumes "addToQueue e (toSceneInputs renderPlan) = Inr videoId"
  shows "renderWithRemotion e renderPlan w0
           = pollLoop e videoId (now (suspend e 0 w0)) (suspend e 0 w0)
       \<and> (\<exists>n\<le>180.
             polling_ends e videoId (now (suspend e 0 w0)) (suspend e 0 w0) n
           \<and> now (suspend e 0 w0) + 1000 * n \<le> now (after_polls e n (suspend e 0 w0))
           \<and> ((\<forall>k. status e videoId k = Queued \<or> status e videoId k = Rendering) \<longrightarrow>
                 renderWithRemotion e renderPlan w0
                   = (Inl (new_Error (js ''Render timed out'')), after_polls e n (suspend e 0 w0))
               \<and> now (suspend e 0 w0) + 180000 \<le> now (after_polls e n (suspend e 0 w0))
               \<and> 0 < n
               \<and> now (after_polls e (n - 1) (suspend e 0 w0)) < now (suspend e 0 w0) + 180000
               \<and> ((\<forall>k. elapsed e k = 0) \<longrightarrow>
                     n = 180
                   \<and> now (after_polls e n (suspend e 0 w0)) = now (suspend e 0 w0) + 180000)))"
proof -
  let ?w = "suspend e 0 w0"
  have r: "renderWithRemotion e renderPlan w0 = pollLoop e videoId (now ?w) ?w"
    using assms by (simp add: renderWithRemotion_def Let_def)
  from pollLoop_run [of "now ?w" ?w e videoId] obtain n
    where b: "n \<le> 180" and n: "polling_ends e videoId (now ?w) ?w n"
    by auto
  have lower: "now ?w + 1000 * n \<le> now (after_polls e n ?w)"
    by (rule now_after_polls_lower)
  have never: "renderWithRemotion e renderPlan w0
                   = (Inl (new_Error (js ''Render timed out'')), after_polls e n ?w)
               \<and> now ?w + 180000 \<le> now (after_polls e n ?w)
               \<and> 0 < n
               \<and> now (after_polls e (n - 1) ?w) < now ?w + 180000
               \<and> ((\<forall>k. elapsed e k = 0) \<longrightarrow>
                     n = 180 \<and> now (after_polls e n ?w) = now ?w + 180000)"
    if pending: "\<forall>k. status e videoId k = Queued \<or> status e videoId k = Rendering"
  proof -
    from pending have "status e videoId (polls ?w + n) \<noteq> Ready"
      "status e videoId (polls ?w + n) \<noteq> Failed"
      by (metis job_status.distinct)+
    with n have late: "now ?w + 180000 \<le> now (after_polls e n ?w)"
      and out: "pollLoop e videoId (now ?w) ?w
                  = (Inl (new_Error (js ''Render timed out'')), after_polls e n ?w)"
      unfolding polling_ends_def by blast+
    from late have pos: "0 < n"
      by (cases n) simp_all
    then have "n - 1 < n" by simp
    with n have prev: "now (after_polls e (n - 1) ?w) < now ?w + 180000"
      unfolding polling_ends_def by blast
    have exact: "n = 180 \<and> now (after_polls e n ?w) = now ?w + 180000"
      if z: "\<forall>k. elapsed e k = 0"
    proof -
      from now_after_polls_exact [OF z] have eq: "now (after_polls e m ?w) = now ?w + 1000 * m" for m
        by blast
      from late eq [of n] have "180 \<le> n" by simp
      with b have "n = 180" by simp
      with eq [of n] show ?thesis by simp
    qed
    from out late pos prev exact show ?thesis unfolding r by blast
  qed
  from r b n lower never show ?thesis by blast
qed

theorem pollLoop_terminates_witness:
  "addToQueue never_ready_env (toSceneInputs example_plan) = Inr (js ''job1'')
   \<and> fst (renderWithRemotion never_ready_env example_plan initial_world)
       = Inl (new_Error (js ''Render timed out''))
   \<and> now (snd (renderWithRemotion never_ready_env example_plan initial_world))
       = now initial_world + 180000
   \<and> polls (snd (renderWithRemotion never_ready_env example_plan initial_world)) = 180"
proof -
  let ?e = never_ready_env
  let ?w = "suspend ?e 0 initial_world"
  have q: "addToQueue ?e (toSceneInputs example_plan) = Inr (js ''job1'')"
    by (simp add: never_ready_env_def example_env_def)
  have s: "\<forall>k. status ?e (js ''job1'') k = Queued \<or> status ?e (js ''job1'') k = Rendering"
    and z: "\<forall>k. elapsed ?e k = 0"
    by (simp_all add: never_ready_env_def example_env_def)
  have w: "now ?w = now initial_world" "polls ?w = 0"
    by (simp_all add: suspend_def never_ready_env_def example_env_def initial_world_def)
  from pollLoop_terminates [OF q, of initial_world] s z obtain n
    where "renderWithRemotion ?e example_plan initial_world
             = (Inl (new_Error (js ''Render timed out'')), after_polls ?e n ?w)"
      and "n = 180" and "now (after_polls ?e n ?w) = now ?w + 180000"
    by blast
  with q w polls_after_polls [of ?e n ?w] show ?thesis by simp
qed

section \<open>Failures of the whole pipeline\<close>

lemma no_scenes_request_rejected:
  "validateRequest no_scenes_request = Inl (new_Error (js ''scenes must be an array''))"
  by (simp add: no_scenes_request_def validateRequest_def and_then_def)

lemma no_config_request_rejected:
  "validateRequest no_config_request = Inl (new_Error (js ''config is required''))"
  by (simp add: no_config_request_def example_request_def eval_simps)

text \<open>
  C10. A request without \<open>scenes\<close> makes \<open>renderVideo\<close> fail with the \<open>TypeError\<close>
  that the first \<open>logger.info\<close> throws before the \<open>try\<close> is entered: the message does
  not start with \<open>Rendering failed: \<close>, and the message \<open>scenes must be an array\<close> that
  \<open>validateRequest\<close> has for this request never reaches the caller. The same holds for a
  request without \<open>config\<close>. For every request that has both, whenever \<open>renderVideo\<close>
  fails the error is a new \<open>Error\<close> whose message is \<open>Rendering failed: \<close> followed by
  the message of what the body of the \<open>try\<close> threw; stage by stage, a validation
  failure, a TTS download failure, a render failure and an upload failure each reach the
  caller in exactly that form.
\<close>

theorem renderVideo_failures_wrapped:
  "renderVideo cfg e no_scenes_request w
     = (Inl (JsError (js ''TypeError'')
               (js ''Cannot read properties of undefined (reading '' @ [0x27] @ js ''length''
                @ [0x27] @ js '')'')),
        w\<lparr>randoms := randoms w + 1\<rparr>)
   \<and> validateRequest no_scenes_request = Inl (new_Error (js ''scenes must be an array''))
   \<and> (\<forall>m. fst (renderVideo cfg e no_scenes_request w)
            \<noteq> Inl (new_Error (js ''Rendering failed: '' @ m)))
   \<and> renderVideo cfg e no_config_request w
     = (Inl (JsError (js ''TypeError'')
               (js ''Cannot read properties of undefined (reading '' @ [0x27] @ js ''resolution''
                @ [0x27] @ js '')'')),
        w\<lparr>randoms := randoms w + 1\<rparr>)
   \<and> validateRequest no_config_request = Inl (new_Error (js ''config is required''))
   \<and> (\<forall>m. fst (renderVideo cfg e no_config_request w)
            \<noteq> Inl (new_Error (js ''Rendering failed: '' @ m)))
   \<and> (read_for_log request = Inr () \<longrightarrow>
        (\<forall>err. fst (renderVideo cfg e request w) = Inl err \<longrightarrow>
           (\<exists>cause. fst (renderVideo_try cfg e request (w\<lparr>randoms := randoms w + 1\<rparr>)) = Inl cause
              \<and> err = new_Error (js ''Rendering failed: '' @ normalizeError cause)))
        \<and> (validateRequest request = Inl cause \<longrightarrow>
             renderVideo cfg e request w
               = (Inl (new_Error (js ''Rendering failed: '' @ normalizeError cause)),
                  w\<lparr>randoms := randoms w + 1\<rparr>))
        \<and> (validateRequest request = Inr v
             \<and> downloadTtsAudio cfg e (ttsUrl (config v)) (w\<lparr>randoms := randoms w + 1\<rparr>)
                 = (Inl cause, w1) \<longrightarrow>
             renderVideo cfg e request w
               = (Inl (new_Error (js ''Rendering failed: '' @ normalizeError cause)), w1))
        \<and> (validateRequest request = Inr v
             \<and> downloadTtsAudio cfg e (ttsUrl (config v)) (w\<lparr>randoms := randoms w + 1\<rparr>)
                 = (Inr audio, w1)
             \<and> resolveAssets cfg e (assets (config v)) w1 = (Inr ras, w2)
             \<and> buildRenderPlan v audio ras = Inr plan
             \<and> renderWithRemotion e plan w2 = (Inl cause, w3) \<longrightarrow>
             renderVideo cfg e request w
               = (Inl (new_Error (js ''Rendering failed: '' @ normalizeError cause)), w3))
        \<and> (validateRequest request = Inr v
             \<and> downloadTtsAudio cfg e (ttsUrl (config v)) (w\<lparr>randoms := randoms w + 1\<rparr>)
                 = (Inr audio, w1)
             \<and> resolveAssets cfg e (assets (config v)) w1 = (Inr ras, w2)
             \<and> buildRenderPlan v audio ras = Inr plan
             \<and> renderWithRemotion e plan w2 = (Inr video, w3)
             \<and> responseMode cfg = js ''url''
             \<and> uploadVideo cfg e video w3 = (Inl cause, w4) \<longrightarrow>
             renderVideo cfg e request w
               = (Inl (new_Error (js ''Rendering failed: '' @ normalizeError cause)), w4)))"
proof -
  have S: "renderVideo cfg e no_scenes_request w
     = (Inl (JsError (js ''TypeError'')
               (js ''Cannot read properties of undefined (reading '' @ [0x27] @ js ''length''
                @ [0x27] @ js '')'')),
        w\<lparr>randoms := randoms w + 1\<rparr>)"
    by (rule renderVideo_unread)
       (simp add: read_for_log_def no_scenes_request_def TypeError_read_def js_def)
  have S': "fst (renderVideo cfg e no_scenes_request w)
            \<noteq> Inl (new_Error (js ''Rendering failed: '' @ m))" for m
    unfolding S by (simp add: new_Error_def js_def)
  have K: "renderVideo cfg e no_config_request w
     = (Inl (JsError (js ''TypeError'')
               (js ''Cannot read properties of undefined (reading '' @ [0x27] @ js ''resolution''
                @ [0x27] @ js '')'')),
        w\<lparr>randoms := randoms w + 1\<rparr>)"
    by (rule renderVideo_unread)
       (simp add: read_for_log_def no_config_request_def received_def TypeError_read_def js_def)
  have K': "fst (renderVideo cfg e no_config_request w)
            \<noteq> Inl (new_Error (js ''Rendering failed: '' @ m))" for m
    unfolding K by (simp add: new_Error_def js_def)
  have G: "(\<forall>err. fst (renderVideo cfg e request w) = Inl err \<longrightarrow>
           (\<exists>cause. fst (renderVideo_try cfg e request (w\<lparr>randoms := randoms w + 1\<rparr>)) = Inl cause
              \<and> err = new_Error (js ''Rendering failed: '' @ normalizeError cause)))
        \<and> (validateRequest request = Inl cause \<longrightarrow>
             renderVideo cfg e request w
               = (Inl (new_Error (js ''Rendering failed: '' @ normalizeError cause)),
                  w\<lparr>randoms := randoms w + 1\<rparr>))
        \<and> (validateRequest request = Inr v
             \<and> downloadTtsAudio cfg e (ttsUrl (config v)) (w\<lparr>randoms := randoms w + 1\<rparr>)
                 = (Inl cause, w1) \<longrightarrow>
             renderVideo cfg e request w
               = (Inl (new_Error (js ''Rendering failed: '' @ normalizeError cause)), w1))
        \<and> (validateRequest request = Inr v
             \<and> downloadTtsAudio cfg e (ttsUrl (config v)) (w\<lparr>randoms := randoms w + 1\<rparr>)
                 = (Inr audio, w1)
             \<and> resolveAssets cfg e (assets (config v)) w1 = (Inr ras, w2)
             \<and> buildRenderPlan v audio ras = Inr plan
             \<and> renderWithRemotion e plan w2 = (Inl cause, w3) \<longrightarrow>
             renderVideo cfg e request w
               = (Inl (new_Error (js ''Rendering failed: '' @ normalizeError cause)), w3))
        \<and> (validateRequest request = Inr v
             \<and> downloadTtsAudio cfg e (ttsUrl (config v)) (w\<lparr>randoms := randoms w + 1\<rparr>)
                 = (Inr audio, w1)
             \<and> resolveAssets cfg e (assets (config v)) w1 = (Inr ras, w2)
             \<and> buildRenderPlan v audio ras = Inr plan
             \<and> renderWithRemotion e plan w2 = (Inr video, w3)
             \<and> responseMode cfg = js ''url''
             \<and> uploadVideo cfg e video w3 = (Inl cause, w4) \<longrightarrow>
             renderVideo cfg e request w
               = (Inl (new_Error (js ''Rendering failed: '' @ normalizeError cause)), w4))"
    if L: "read_for_log request = Inr ()"
  proof -
    note W = renderVideo_wrap [OF L]
    have A: "\<exists>cause. fst (renderVideo_try cfg e request (w\<lparr>randoms := randoms w + 1\<rparr>)) = Inl cause
         \<and> err = new_Error (js ''Rendering failed: '' @ normalizeError cause)"
      if "fst (renderVideo cfg e request w) = Inl err" for err
      using that unfolding W
      by (cases "renderVideo_try cfg e request (w\<lparr>randoms := randoms w + 1\<rparr>)")
         (auto split: sum.splits)
    have B: "renderVideo cfg e request w
          = (Inl (new_Error (js ''Rendering failed: '' @ normalizeError cause)),
             w\<lparr>randoms := randoms w + 1\<rparr>)"
      if "validateRequest request = Inl cause"
      using that unfolding W by (simp add: renderVideo_try_def)
    have C: "renderVideo cfg e request w
          = (Inl (new_Error (js ''Rendering failed: '' @ normalizeError cause)), w1)"
      if "validateRequest request = Inr v"
        "downloadTtsAudio cfg e (ttsUrl (config v)) (w\<lparr>randoms := randoms w + 1\<rparr>) = (Inl cause, w1)"
      using that unfolding W by (simp add: renderVideo_try_def)
    have D: "renderVideo cfg e request w
          = (Inl (new_Error (js ''Rendering failed: '' @ normalizeError cause)), w3)"
      if "validateRequest request = Inr v"
        "downloadTtsAudio cfg e (ttsUrl (config v)) (w\<lparr>randoms := randoms w + 1\<rparr>) = (Inr audio, w1)"
        "resolveAssets cfg e (assets (config v)) w1 = (Inr ras, w2)"
        "buildRenderPlan v audio ras = Inr plan"
        "renderWithRemotion e plan w2 = (Inl cause, w3)"
      using that unfolding W by (simp add: renderVideo_try_def)
    have E: "renderVideo cfg e request w
          = (Inl (new_Error (js ''Rendering failed: '' @ normalizeError cause)), w4)"
      if "validateRequest request = Inr v"
        "downloadTtsAudio cfg e (ttsUrl (config v)) (w\<lparr>randoms := randoms w + 1\<rparr>) = (Inr audio, w1)"
        "resolveAssets cfg e (assets (config v)) w1 = (Inr ras, w2)"
        "buildRenderPlan v audio ras = Inr plan"
        "renderWithRemotion e plan w2 = (Inr video, w3)"
        "responseMode cfg = js ''url''"
        "uploadVideo cfg e video w3 = (Inl cause, w4)"
      using that unfolding W by (simp add: renderVideo_try_def)
    from A B C D E show ?thesis by blast
  qed
  from S S' K K' G no_scenes_request_rejected no_config_request_rejected show ?thesis
    by blast
qed

theorem renderVideo_failures_wrapped_witness:
  "read_for_log (received example_request) = Inr ()
   \<and> validateRequest (received example_request) = Inr example_request
   \<and> fst (downloadTtsAudio example_config tts_404_env (ttsUrl (config example_request))
            (initial_world\<lparr>randoms := randoms initial_world + 1\<rparr>))
       = Inl (new_Error (js ''Failed to download TTS audio: TTS download failed: HTTP 404''))
   \<and> fst (renderVideo example_config tts_404_env (received example_request) initial_world)
       = Inl (new_Error
               (js ''Rendering failed: Failed to download TTS audio: TTS download failed: HTTP 404''))
   \<and> fst (renderVideo example_config tts_404_env no_scenes_request initial_world)
       = Inl (JsError (js ''TypeError'')
               (js ''Cannot read properties of undefined (reading '' @ [0x27] @ js ''length''
                @ [0x27] @ js '')''))"
proof -
  let ?w = "initial_world\<lparr>randoms := randoms initial_world + 1\<rparr>"
  let ?d = "downloadTtsAudio example_config tts_404_env (ttsUrl (config example_request)) ?w"
  have l: "read_for_log (received example_request) = Inr ()"
    by (rule validated_read_for_log [OF example_request_valid])
  have d: "fst ?d = Inl (new_Error (js ''Failed to download TTS audio: TTS download failed: HTTP 404''))"
    by (simp add: tts_404_env_def run_simps eval_simps)
  then have dp: "?d = (Inl (new_Error (js ''Failed to download TTS audio: TTS download failed: HTTP 404'')),
                   snd ?d)"
    by (simp add: prod_eq_iff)
  note T = renderVideo_failures_wrapped
         [where cfg = example_config and e = tts_404_env and request = "received example_request"
            and w = initial_world and v = example_request and ?w1.0 = "snd ?d"
            and cause = "new_Error (js ''Failed to download TTS audio: TTS download failed: HTTP 404'')"]
  note N = T [THEN conjunct1]
  note G = T [THEN conjunct2, THEN conjunct2, THEN conjunct2, THEN conjunct2, THEN conjunct2,
              THEN conjunct2, THEN mp, OF l]
  note C = G [THEN conjunct2, THEN conjunct2, THEN conjunct1, THEN mp,
              OF conjI [OF example_request_valid dp]]
  have "fst (renderVideo example_config tts_404_env (received example_request) initial_world)
       = Inl (new_Error (js ''Rendering failed: '' @ normalizeError
           (new_Error (js ''Failed to download TTS audio: TTS download failed: HTTP 404''))))"
    unfolding C by simp
  then have r: "fst (renderVideo example_config tts_404_env (received example_request) initial_world)
       = Inl (new_Error
               (js ''Rendering failed: Failed to download TTS audio: TTS download failed: HTTP 404''))"
    by (simp add: new_Error_def js_def)
  have n: "fst (renderVideo example_config tts_404_env no_scenes_request initial_world)
       = Inl (JsError (js ''TypeError'')
               (js ''Cannot read properties of undefined (reading '' @ [0x27] @ js ''length''
                @ [0x27] @ js '')''))"
    unfolding N by simp
  from l example_request_valid d r n show ?thesis by blast
qed

section \<open>The response in url mode\<close>

text \<open>
  C7, as the source has it. In \<open>url\<close> mode, once the render has succeeded,
  \<open>renderVideo\<close> writes the video bytes to a file under the temporary directory and
  answers \<open>{videoUrl}\<close> with \<open>https://storage.example.com/videos/\<close> followed by the
  name of that file; when the write fails the caller gets the \<open>Error\<close>
  \<open>Rendering failed: <cause>\<close> that every failure inside the \<open>try\<close> gets, and nothing
  is recorded as written. In no case is the answer the binary one.
\<close>

theorem renderVideo_url_mode:
  assumes "responseMode cfg = js ''url''"
    and "validateRequest request = Inr v"
    and "downloadTtsAudio cfg e (ttsUrl (config v)) (w\<lparr>randoms := randoms w + 1\<rparr>)
           = (Inr audio, w1)"
    and "resolveAssets cfg e (assets (config v)) w1 = (Inr ras, w2)"
    and "buildRenderPlan v audio ras = Inr plan"
    and "renderWithRemotion e plan w2 = (Inr video, w3)"
  shows "let fileName = js ''video-'' @ show_nat (now w3) @ js ''-'' @ random36 e (randoms w3)
                         @ js ''.mp4'';
             tempPath = path_join e (tempDirPath cfg) fileName
         in (writeFile_result e (awaits w3) tempPath = None \<longrightarrow>
               fst (renderVideo cfg e request w)
                 = Inr (UrlResponse (js ''https://storage.example.com/videos/'' @ fileName))
             \<and> written (snd (renderVideo cfg e request w)) = written w3 @ [(tempPath, video)])
          \<and> (\<forall>cause. writeFile_result e (awaits w3) tempPath = Some cause \<longrightarrow>
               fst (renderVideo cfg e request w)
                 = Inl (new_Error (js ''Rendering failed: '' @ normalizeError cause))
             \<and> written (snd (renderVideo cfg e request w)) = written w3)
          \<and> (\<forall>bytes. fst (renderVideo cfg e request w) \<noteq> Inr (Binary bytes))"
proof -
  define fileName where "fileName = js ''video-'' @ show_nat (now w3) @ js ''-''
                            @ random36 e (randoms w3) @ js ''.mp4''"
  define tempPath where "tempPath = path_join e (tempDirPath cfg) fileName"
  note W = renderVideo_wrap [OF validated_read_for_log [OF assms(2)]]
  have t: "renderVideo_try cfg e request (w\<lparr>randoms := randoms w + 1\<rparr>)
             = (case uploadVideo cfg e video w3 of
                   (Inl err, w4) \<Rightarrow> (Inl err, w4)
                 | (Inr video_url, w4) \<Rightarrow> (Inr (UrlResponse video_url), w4))"
    using renderVideo_try_upload [OF assms(2-6)] assms(1) by simp
  have u: "uploadVideo cfg e video w3
             = (case writeFile_result e (awaits w3) tempPath of
                  Some err \<Rightarrow> (Inl err, suspend e 0 (w3\<lparr>randoms := randoms w3 + 1\<rparr>))
                | None \<Rightarrow> (Inr (js ''https://storage.example.com/videos/'' @ fileName),
                           (suspend e 0 (w3\<lparr>randoms := randoms w3 + 1\<rparr>))
                             \<lparr>written := written w3 @ [(tempPath, video)]\<rparr>))"
    unfolding uploadVideo_def random_suffix_def writeFile_def Let_def fileName_def tempPath_def
      prod.case
    by (cases "writeFile_result e (awaits (w3\<lparr>randoms := randoms w3 + 1\<rparr>))
                 (path_join e (tempDirPath cfg)
                    ((js ''video-'' @ show_nat (now w3) @ js ''-'' @ random36 e (randoms w3))
                     @ js ''.mp4''))")
       simp_all
  have A: "fst (renderVideo cfg e request w)
                 = Inr (UrlResponse (js ''https://storage.example.com/videos/'' @ fileName))
             \<and> written (snd (renderVideo cfg e request w)) = written w3 @ [(tempPath, video)]"
    if "writeFile_result e (awaits w3) tempPath = None"
    unfolding W t u using that by (simp add: suspend_def)
  have B: "fst (renderVideo cfg e request w)
                 = Inl (new_Error (js ''Rendering failed: '' @ normalizeError cause))
             \<and> written (snd (renderVideo cfg e request w)) = written w3"
    if "writeFile_result e (awaits w3) tempPath = Some cause" for cause
    unfolding W t u using that by (simp add: suspend_def)
  have C: "fst (renderVideo cfg e request w) \<noteq> Inr (Binary bytes)" for bytes
    unfolding W t u
    by (cases "writeFile_result e (awaits w3) tempPath") simp_all
  from A B C show ?thesis
    unfolding Let_def fileName_def [symmetric] tempPath_def [symmetric] by blast
qed

theorem renderVideo_url_mode_witness:
  "responseMode example_config = js ''url''
   \<and> validateRequest (received plain_request) = Inr plain_request
   \<and> fst (renderVideo example_config example_env (received plain_request) initial_world)
       = Inr (UrlResponse (js ''https://storage.example.com/videos/video-3000-k3x9qa.mp4''))
   \<and> written (snd (renderVideo example_config example_env (received plain_request) initial_world))
       = [(js ''/tmp/video-3000-k3x9qa.mp4'', [9, 9])]"
proof -
  let ?w0 = "initial_world\<lparr>randoms := randoms initial_world + 1\<rparr>"
  let ?d = "downloadTtsAudio example_config example_env (ttsUrl (config plain_request)) ?w0"
  let ?a = "resolveAssets example_config example_env (assets (config plain_request)) (snd ?d)"
  let ?p = "projr (buildRenderPlan plain_request [1, 2, 3] [])"
  let ?r = "renderWithRemotion example_env ?p (snd ?a)"
  have m: "responseMode example_config = js ''url''"
    by (simp add: example_config_def)
  have d: "?d = (Inr [1, 2, 3], snd ?d)"
    by (simp add: prod_eq_iff plain_request_def run_simps eval_simps)
  have a: "?a = (Inr [], snd ?a)"
    by (simp add: prod_eq_iff plain_request_def run_simps eval_simps)
  have p: "buildRenderPlan plain_request [1, 2, 3] [] = Inr ?p"
    using buildRenderPlan_validated [OF plain_request_valid, of "[1, 2, 3]" "[]"] by auto
  have r: "?r = (Inr [9, 9], snd ?r)"
    by (simp add: prod_eq_iff plain_request_def run_simps eval_simps)
  have w3: "now (snd ?r) = 3000" "randoms (snd ?r) = 1" "written (snd ?r) = []"
    "writeFile_result example_env (awaits (snd ?r))
       (js ''/tmp/video-3000-k3x9qa.mp4'') = None"
    by (simp_all add: plain_request_def run_simps eval_simps)
  have n: "show_nat 3000 = js ''3000''"
    by (simp add: js_def)
  from renderVideo_url_mode [OF m plain_request_valid d a p r] w3
  have "fst (renderVideo example_config example_env (received plain_request) initial_world)
       = Inr (UrlResponse (js ''https://storage.example.com/videos/video-3000-k3x9qa.mp4''))
      \<and> written (snd (renderVideo example_config example_env (received plain_request) initial_world))
       = [(js ''/tmp/video-3000-k3x9qa.mp4'', [9, 9])]"
    by (simp add: Let_def n example_env_def example_config_def js_def)
  with m plain_request_valid show ?thesis by blast
qed

text \<open>
  C7 as stated fails: a failure of the storage step is not told apart from other failures.
  With the same cause message, a file write that fails during the upload and a
  \<open>getVideo\<close> that fails during rendering reach the caller as the same \<open>Error\<close>.
\<close>

theorem upload_failure_not_distinct:
  "fst (renderVideo example_config store_fails_env (received plain_request) initial_world)
     = Inl (JsError (js ''Error'') (js ''Rendering failed: EACCES: permission denied''))
   \<and> fst (renderVideo example_config video_fails_env (received plain_request) initial_world)
     = Inl (JsError (js ''Error'') (js ''Rendering failed: EACCES: permission denied''))"
  by (simp add: plain_request_def store_fails_env_def video_fails_env_def run_simps eval_simps)

end
